(* ===== verification/Prelude.thy ===== *)
theory Prelude
  imports Main "HOL-Library.Sublist"
begin

text \<open>
  Shared vocabulary of the AmCAT scraping-controller development: the Python exceptions
  the modelled code raises or catches, the value of a Python generator that was run to
  its end (the items it yielded and the exception that ended it, if any), and the
  generic list lemmas the component theories share.
\<close>

section \<open>Exceptions\<close>

text \<open>
  The exception classes that occur in \<open>src/amcat/scraping/controller.py\<close> and
  \<open>src/amcat/scripts/article_upload/upload.py\<close>.  \<open>IntegrityError\<close> and
  \<open>DatabaseError\<close> are Django's storage errors (the ones \<open>Controller.save\<close> catches);
  \<open>NameError\<close> stands for Python's \<open>UnboundLocalError\<close>; \<open>Exception\<close> is a plain
  \<open>raise Exception(msg)\<close>.  \<open>ParseError\<close> is \<open>ParseError(msg)\<close>, while
  \<open>ParseErrorArgs\<close> is the two-argument \<open>ParseError(self.errors, article_errors)\<close>
  that \<open>UploadScript.run\<close> raises; \<open>MissingValueError f\<close> is
  \<open>MissingValueError(f)\<close>, a subclass of \<open>ArticleError\<close> and so of \<open>ParseError\<close>;
  \<open>ValidationError\<close> is Django's \<open>forms.ValidationError\<close>.  Every constructor is a subclass of Python's \<open>Exception\<close>, so
  an \<open>except Exception\<close> clause catches all of them.
\<close>

datatype exc =
    IntegrityError
  | DatabaseError
  | ValueError string
  | NameError string
  | ParseError string
  | MissingValueError string
  | ParseErrorArgs "exc list" "exc option list list"
  | TypeError string
  | ValidationError string
  | AttributeError string
  | Exception string

text \<open>The filter of \<open>except (IntegrityError, DatabaseError)\<close>.\<close>

fun is_db_error :: "exc \<Rightarrow> bool" where
  "is_db_error IntegrityError = True"
| "is_db_error DatabaseError = True"
| "is_db_error _ = False"

section \<open>Generators\<close>

text \<open>
  A Python generator consumed to its end: the items it yielded, in order, and the
  exception that stopped it (\<open>None\<close> when it returned normally).  A consumer that
  iterates over it with \<open>for\<close> sees the items before the exception; \<open>list(g)\<close>
  (and the \<open>@to_list\<close> decorator) sees only the exception.
\<close>

type_synonym 'a gen = "'a list \<times> exc option"

fun py_list :: "'a gen \<Rightarrow> exc + 'a list" where
  "py_list (xs, None) = Inr xs"
| "py_list (xs, Some e) = Inl e"

section \<open>Python strings\<close>

text \<open>\<open>str.strip()\<close>: the ASCII characters for which \<open>str.isspace()\<close> holds.\<close>

definition is_space :: "char \<Rightarrow> bool" where
  "is_space c = (let n = (of_char c :: nat) in n = 32 \<or> (9 \<le> n \<and> n \<le> 13) \<or> (28 \<le> n \<and> n \<le> 31))"

definition py_strip :: "string \<Rightarrow> string" where
  "py_strip s = rev (dropWhile is_space (rev (dropWhile is_space s)))"

section \<open>Shared lemmas\<close>

named_theorems model_simps "equations that unfold the model's operations one step"

lemma prefix_append_same [simp]: "prefix xs (xs @ ys)"
  by (rule prefix_append [THEN iffD2]) simp

lemma take_length_append [simp]: "take (length xs) (xs @ ys) = xs"
  by simp

lemma set_filter_subset: "set (filter P xs) \<subseteq> set xs"
  by auto

lemma nth_append_take_set:
  assumes "j < length (xs @ ys)" and "j \<ge> length xs"
  shows "set xs \<subseteq> set (take j (xs @ ys))"
  using assms by (simp add: take_append)

lemma find_SomeD: "find P xs = Some x \<Longrightarrow> x \<in> set xs \<and> P x"
  by (induction xs) (auto split: if_splits)

lemma sum_list_map_update:
  "w < length ws \<Longrightarrow> sum_list (map f (ws[w := x])) + f (ws ! w) = sum_list (map f ws) + f x"
  for f :: "'a \<Rightarrow> nat"
proof (induction ws arbitrary: w)
  case Nil
  then show ?case by simp
next
  case (Cons a ws)
  show ?case
  proof (cases w)
    case 0
    then show ?thesis by simp
  next
    case (Suc n)
    with Cons.prems have "n < length ws" by simp
    from Cons.IH[OF this] Suc show ?thesis by simp
  qed
qed

lemma in_set_update_other: "x \<in> set xs \<Longrightarrow> x \<noteq> xs ! w \<Longrightarrow> x \<in> set (xs[w := v])"
proof -
  assume "x \<in> set xs" "x \<noteq> xs ! w"
  then obtain j where j: "j < length xs" "xs ! j = x" "j \<noteq> w" by (auto simp: in_set_conv_nth)
  then have "xs[w := v] ! j = x" "j < length (xs[w := v])" by simp_all
  then show ?thesis using nth_mem by metis
qed

lemma list_all_update: "list_all P xs \<Longrightarrow> P v \<Longrightarrow> list_all P (xs[w := v])"
  unfolding list_all_iff using set_update_subset_insert by fastforce

end
