(* ===== verification/Persistence.thy ===== *)
theory Persistence
  imports Prelude
begin

text \<open>
  The collaborators of the controller that live outside \<open>src/\<close>: Django's model objects
  (their primary key, their \<open>parent\<close> attribute and their equality), the database
  transaction with its savepoints, and \<open>Model.save()\<close>.  They are modelled from the
  specification (section 6, "Consumed from the Persistence collaborator") and from
  Django's documented behaviour:
  \<^item> objects live in a heap \<open>oid \<Rightarrow> 'p article\<close>; a Python reference is an \<open>oid\<close>;
  \<^item> the database is the write log of the enclosing transaction, the primary-key
    sequence and the flag PostgreSQL keeps after a failed statement ("current
    transaction is aborted": every later statement fails until a rollback);
  \<^item> whether the database accepts a row is decided by a constraint oracle \<open>chk\<close>
    (integrity or other database error, or acceptance).
\<close>

section \<open>Objects\<close>

type_synonym oid = nat

text \<open>
  The value of an object's \<open>parent\<close> attribute: absent (\<open>hasattr\<close> is false, e.g.
  for an object that is not an \<open>Article\<close>), \<open>None\<close>, or a reference to an object.
\<close>

datatype pref = NoAttr | PNone | PRef oid

record 'p article =
  pk :: "nat option"
  parent :: pref
  payload :: 'p

type_synonym 'p heap = "oid \<Rightarrow> 'p article"

fun has_parent :: "pref \<Rightarrow> bool" where
  "has_parent NoAttr = False"
| "has_parent _ = True"

text \<open>
  Django's \<open>Model.__eq__\<close>: an unsaved instance is equal only to itself, a saved one
  to every instance with the same primary key.
\<close>

definition py_eq :: "'p heap \<Rightarrow> oid \<Rightarrow> oid \<Rightarrow> bool" where
  "py_eq h x y = (case pk (h x) of None \<Rightarrow> x = y | Some k \<Rightarrow> pk (h y) = Some k)"

text \<open>
  \<open>a.parent == u\<close> for a value of the parent attribute (\<open>None == u\<close> is false),
  and \<open>a.parent in xs\<close> (list membership tests identity, then equality).
\<close>

fun pref_eq :: "'p heap \<Rightarrow> pref \<Rightarrow> oid \<Rightarrow> bool" where
  "pref_eq h (PRef q) u = py_eq h q u"
| "pref_eq h _ u = False"

fun pref_in :: "'p heap \<Rightarrow> pref \<Rightarrow> oid list \<Rightarrow> bool" where
  "pref_in h (PRef q) xs = (\<exists>e \<in> set xs. q = e \<or> py_eq h q e)"
| "pref_in h _ xs = False"

section \<open>The database\<close>

record 'p row =
  row_pk :: nat
  row_parent :: "nat option"
  row_data :: 'p

record 'p db =
  log :: "'p row list"
  next_pk :: nat
  aborted :: bool

datatype db_error = Integrity | OtherDatabase

fun exc_of_db :: "db_error \<Rightarrow> exc" where
  "exc_of_db Integrity = IntegrityError"
| "exc_of_db OtherDatabase = DatabaseError"

type_synonym 'p chk = "'p db \<Rightarrow> 'p row \<Rightarrow> db_error option"

text \<open>
  One \<open>INSERT\<close> (no primary key yet: the sequence issues one, and a sequence value is
  never given back, not even by a rollback) or \<open>UPDATE\<close> (the object already has
  one).  A statement in an aborted transaction fails; a rejected statement aborts it.
\<close>

definition db_write ::
  "'p chk \<Rightarrow> 'p db \<Rightarrow> nat option \<Rightarrow> nat option \<Rightarrow> 'p \<Rightarrow> 'p db \<times> (exc + nat)" where
  "db_write chk d k0 par x =
     (if aborted d then (d, Inl DatabaseError)
      else
        let k = (case k0 of Some k \<Rightarrow> k | None \<Rightarrow> next_pk d);
            d1 = (case k0 of Some _ \<Rightarrow> d | None \<Rightarrow> d\<lparr>next_pk := Suc (next_pk d)\<rparr>);
            r = \<lparr>row_pk = k, row_parent = par, row_data = x\<rparr>
        in case chk d r of
             None \<Rightarrow> (d1\<lparr>log := log d @ [r]\<rparr>, Inr k)
           | Some err \<Rightarrow> (d1\<lparr>aborted := True\<rparr>, Inl (exc_of_db err)))"

text \<open>\<open>transaction.savepoint()\<close> and \<open>transaction.savepoint_rollback(sp)\<close>.\<close>

definition savepoint :: "'p db \<Rightarrow> exc + nat" where
  "savepoint d = (if aborted d then Inl DatabaseError else Inr (length (log d)))"

definition savepoint_rollback :: "nat \<Rightarrow> 'p db \<Rightarrow> 'p db" where
  "savepoint_rollback sp d = d\<lparr>log := take sp (log d), aborted := False\<rparr>"

section \<open>Model.save()\<close>

text \<open>
  The foreign key Django writes for the \<open>parent\<close> attribute: the parent's primary key;
  saving with an unsaved related object raises \<open>ValueError\<close>.
\<close>

fun parent_fk :: "'p heap \<Rightarrow> pref \<Rightarrow> exc + nat option" where
  "parent_fk h (PRef q) =
     (case pk (h q) of
        None \<Rightarrow> Inl (ValueError ''save() prohibited to prevent data loss due to unsaved related object'')
      | Some k \<Rightarrow> Inr (Some k))"
| "parent_fk h _ = Inr None"

definition model_save :: "'p chk \<Rightarrow> 'p heap \<Rightarrow> 'p db \<Rightarrow> oid \<Rightarrow> 'p heap \<times> 'p db \<times> exc option" where
  "model_save chk h d ob =
     (let a = h ob in
      case parent_fk h (parent a) of
        Inl e \<Rightarrow> (h, d, Some e)
      | Inr par \<Rightarrow>
          (case db_write chk d (pk a) par (payload a) of
             (d', Inl e) \<Rightarrow> (h, d', Some e)
           | (d', Inr k) \<Rightarrow> (h(ob := a\<lparr>pk := Some k\<rparr>), d', None)))"

section \<open>Lemmas\<close>

lemma is_db_error_exc_of_db [simp]: "is_db_error (exc_of_db e)"
  by (cases e) simp_all

text \<open>A failed statement leaves the log as it was; a successful one appends its row.\<close>

lemma db_write_Inl:
  "db_write chk d k0 par x = (d', Inl e) \<Longrightarrow> is_db_error e \<and> log d' = log d \<and> next_pk d \<le> next_pk d'"
  by (auto simp: db_write_def Let_def split: if_splits option.splits)

lemma db_write_Inr:
  "db_write chk d k0 par x = (d', Inr k) \<Longrightarrow>
     \<not> aborted d \<and> \<not> aborted d' \<and> k = (case k0 of Some k \<Rightarrow> k | None \<Rightarrow> next_pk d) \<and>
     log d' = log d @ [\<lparr>row_pk = k, row_parent = par, row_data = x\<rparr>] \<and>
     next_pk d' = (case k0 of Some _ \<Rightarrow> next_pk d | None \<Rightarrow> Suc (next_pk d))"
  by (auto simp: db_write_def Let_def split: if_splits option.splits)

end
