(* ===== verification/Saver.thy ===== *)
theory Saver
  imports Persistence
begin

text \<open>
  \<open>Controller.save\<close> and \<open>Controller.save_in_order\<close>
  (\<open>src/amcat/scraping/controller.py\<close>, lines 78--108): saving one article inside a
  savepoint, and saving a batch parents-first, adopting the children of every article
  that was saved.  The state both thread is the heap of Python objects and the
  database.
\<close>

type_synonym 'p mem = "'p heap \<times> 'p db"

section \<open>Controller.save\<close>

text \<open>
  \<^verbatim>\<open>
  try:
      save = transaction.savepoint()
      article.save()
  except (IntegrityError, DatabaseError):
      transaction.savepoint_rollback(save)
      return
  return article
  \<close>
  A storage error rolls back to the savepoint and returns \<open>None\<close>; any other exception
  propagates with its effects.  If \<open>savepoint()\<close> itself fails, the handler reads the
  unassigned local \<open>save\<close>, which raises \<open>UnboundLocalError\<close>.
\<close>

definition save :: "'p chk \<Rightarrow> 'p mem \<Rightarrow> oid \<Rightarrow> 'p mem \<times> (exc + oid option)" where
  "save chk s ob =
     (case s of (h, d) \<Rightarrow>
       (case savepoint d of
          Inl e \<Rightarrow> (if is_db_error e then ((h, d), Inl (NameError ''save'')) else ((h, d), Inl e))
        | Inr sp \<Rightarrow>
            (case model_save chk h d ob of
               (h', d', None) \<Rightarrow> ((h', d'), Inr (Some ob))
             | (h', d', Some e) \<Rightarrow>
                 (if is_db_error e then ((h', savepoint_rollback sp d'), Inr None)
                  else ((h', d'), Inl e)))))"

section \<open>Controller.save_in_order\<close>

text \<open>
  \<^verbatim>\<open>
  articles = list(articles)
  toprocess = [a for a in articles if (not hasattr(a, 'parent')) or not a.parent in articles]
  for unsaved in toprocess:
      saved = self.save(unsaved)
      if not saved:
          continue
      for a in articles:
          if hasattr(a, 'parent') and a.parent == unsaved:
              a.parent = saved
              toprocess.append(a)
      yield saved
  \<close>
\<close>

text \<open>The initial work list: the articles whose parent is absent or not in the batch.\<close>

definition roots :: "'p heap \<Rightarrow> oid list \<Rightarrow> oid list" where
  "roots h B = filter (\<lambda>a. \<not> has_parent (parent (h a)) \<or> \<not> pref_in h (parent (h a)) B) B"

text \<open>
  The inner loop over \<open>articles\<close> after \<open>u\<close> was saved: each article whose parent equals
  \<open>u\<close> gets \<open>u\<close> as its parent and is appended to the work list, in batch order.
\<close>

fun adopt :: "'p heap \<Rightarrow> oid list \<Rightarrow> oid \<Rightarrow> 'p heap \<times> oid list" where
  "adopt h [] u = (h, [])"
| "adopt h (a # as) u =
     (if has_parent (parent (h a)) \<and> pref_eq h (parent (h a)) u
      then apsnd (Cons a) (adopt (h(a := (h a)\<lparr>parent := PRef u\<rparr>)) as u)
      else adopt h as u)"

text \<open>
  The outer loop iterates over a list that grows while it runs, so it is not
  structurally recursive and need not end (see \<open>save_in_order_diverges\<close>); it takes
  fuel, one unit per work-list element and one for the exit, and \<open>None\<close> is running
  out.  The work list argument is the part of \<open>toprocess\<close> not yet visited.  The
  result is the final state and the generator's value: the saved articles it yielded
  and the exception that ended it.
\<close>

fun sio_loop :: "nat \<Rightarrow> 'p chk \<Rightarrow> oid list \<Rightarrow> oid list \<Rightarrow> 'p mem \<Rightarrow> ('p mem \<times> oid gen) option" where
  "sio_loop 0 chk B q s = None"
| "sio_loop (Suc n) chk B [] s = Some (s, [], None)"
| "sio_loop (Suc n) chk B (u # q) s =
     (case save chk s u of
        (s1, Inl e) \<Rightarrow> Some (s1, [], Some e)
      | (s1, Inr None) \<Rightarrow> sio_loop n chk B q s1
      | ((h1, d1), Inr (Some v)) \<Rightarrow>
          (case adopt h1 B u of
             (h2, new) \<Rightarrow>
               map_option (\<lambda>(s', ys, e). (s', v # ys, e)) (sio_loop n chk B (q @ new) (h2, d1))))"

definition save_in_order :: "nat \<Rightarrow> 'p chk \<Rightarrow> oid list \<Rightarrow> 'p mem \<Rightarrow> ('p mem \<times> oid gen) option" where
  "save_in_order n chk B s = sio_loop n chk B (roots (fst s) B) s"

section \<open>Properties of a batch\<close>

text \<open>
  \<open>keys_issued\<close>: every primary key an object holds was issued by the database's
  sequence (it is below the next value).  \<open>fresh_batch\<close>: the situation of a batch a
  harvester has just produced: distinct new (unsaved) objects, a usable transaction, and
  keys issued.  \<open>is_root\<close> and \<open>children\<close> are the parent forest of the batch by object
  identity.
\<close>

definition keys_issued :: "'p heap \<Rightarrow> 'p db \<Rightarrow> bool" where
  "keys_issued h d \<longleftrightarrow> (\<forall>x k. pk (h x) = Some k \<longrightarrow> k < next_pk d)"

definition fresh_batch :: "'p heap \<Rightarrow> 'p db \<Rightarrow> oid list \<Rightarrow> bool" where
  "fresh_batch h d B \<longleftrightarrow> \<not> aborted d \<and> keys_issued h d \<and> distinct B \<and> (\<forall>a \<in> set B. pk (h a) = None)"

definition is_root :: "'p heap \<Rightarrow> oid list \<Rightarrow> oid \<Rightarrow> bool" where
  "is_root h B x \<longleftrightarrow> (\<forall>p \<in> set B. parent (h x) \<noteq> PRef p)"

definition children :: "'p heap \<Rightarrow> oid list \<Rightarrow> oid \<Rightarrow> oid list" where
  "children h B u = filter (\<lambda>a. parent (h a) = PRef u) B"

text \<open>
  The loop invariant for a fresh batch with initial heap \<open>h0\<close>: \<open>E\<close> is the set of
  articles ever put on the work list, \<open>q\<close> the part not yet visited, \<open>Y\<close> what was
  yielded.  An article is on the work list iff it is a root or its parent was visited
  and saved; only visited articles have keys; the parents of waiting articles in the
  batch were already yielded.
\<close>

definition sio_inv ::
  "'p heap \<Rightarrow> oid list \<Rightarrow> oid set \<Rightarrow> oid list \<Rightarrow> oid list \<Rightarrow> 'p heap \<Rightarrow> 'p db \<Rightarrow> bool" where
  "sio_inv h0 B E Y q h d \<longleftrightarrow>
     \<not> aborted d \<and> keys_issued h d \<and> distinct B \<and> (\<forall>x. parent (h x) = parent (h0 x)) \<and>
     distinct q \<and> set q \<subseteq> E \<and> E \<subseteq> set B \<and>
     (\<forall>x \<in> set B. pk (h x) \<noteq> None \<longrightarrow> x \<in> E - set q) \<and>
     (\<forall>x \<in> set B. x \<in> E \<longleftrightarrow>
        is_root h0 B x \<or> (\<exists>p. parent (h0 x) = PRef p \<and> p \<in> E - set q \<and> pk (h p) \<noteq> None)) \<and>
     (\<forall>x \<in> set q. \<forall>p. parent (h0 x) = PRef p \<and> p \<in> set B \<longrightarrow> p \<in> set Y) \<and>
     (\<forall>x \<in> set B. x \<in> set Y \<longleftrightarrow> x \<in> E - set q \<and> pk (h x) \<noteq> None) \<and> distinct Y"



subsection \<open>Concrete inputs\<close>

text \<open>
  A chain of three new articles (4 is a child of 3, 3 of 2), an empty transaction whose
  sequence stands at 10, a database that accepts every row and one that rejects the row
  with key 11; and a batch holding two instances (3 and 4) of the stored row 5, where 4
  is the parent of the new article 2 and 2 the parent of 4.
\<close>

definition ex_heap :: "unit heap" where
  "ex_heap =
     (\<lambda>_. \<lparr>pk = None, parent = PNone, payload = ()\<rparr>)
       (2 := \<lparr>pk = None, parent = PNone, payload = ()\<rparr>,
        3 := \<lparr>pk = None, parent = PRef 2, payload = ()\<rparr>,
        4 := \<lparr>pk = None, parent = PRef 3, payload = ()\<rparr>)"

definition ex_db :: "unit db" where
  "ex_db = \<lparr>log = [], next_pk = 10, aborted = False\<rparr>"

definition accept_all :: "unit chk" where
  "accept_all d r = None"

definition reject_11 :: "unit chk" where
  "reject_11 d r = (if row_pk r = 11 then Some Integrity else None)"

definition two_copies_heap :: "unit heap" where
  "two_copies_heap =
     (\<lambda>_. \<lparr>pk = None, parent = PNone, payload = ()\<rparr>)
       (3 := \<lparr>pk = Some 5, parent = PNone, payload = ()\<rparr>,
        4 := \<lparr>pk = Some 5, parent = PRef 2, payload = ()\<rparr>,
        2 := \<lparr>pk = None, parent = PRef 3, payload = ()\<rparr>)"

section \<open>Controller.save: one step\<close>

lemma save_Inl:
  "save chk (h, d) u = ((h', d'), Inl e) \<Longrightarrow> h' = h \<and> d' = d"
  by (auto simp: save_def model_save_def savepoint_def Let_def
           split: if_splits option.splits sum.splits prod.splits dest: db_write_Inl)

lemma save_None:
  "save chk (h, d) u = ((h', d'), Inr None) \<Longrightarrow>
     h' = h \<and> log d' = log d \<and> \<not> aborted d' \<and> next_pk d \<le> next_pk d'"
  by (auto simp: save_def model_save_def savepoint_def savepoint_rollback_def Let_def
           split: if_splits option.splits sum.splits prod.splits dest: db_write_Inl)

lemma save_Some:
  "save chk (h, d) u = ((h', d'), Inr (Some v)) \<Longrightarrow>
     v = u \<and> \<not> aborted d \<and> \<not> aborted d' \<and>
     (\<exists>par. parent_fk h (parent (h u)) = Inr par \<and>
        (let k = (case pk (h u) of Some k \<Rightarrow> k | None \<Rightarrow> next_pk d) in
         h' = h(u := (h u)\<lparr>pk := Some k\<rparr>) \<and>
         log d' = log d @ [\<lparr>row_pk = k, row_parent = par, row_data = payload (h u)\<rparr>] \<and>
         next_pk d' = (case pk (h u) of Some _ \<Rightarrow> next_pk d | None \<Rightarrow> Suc (next_pk d))))"
  by (auto simp: save_def model_save_def savepoint_def Let_def
           split: if_splits option.splits sum.splits prod.splits dest: db_write_Inr)

section \<open>The adoption scan\<close>

lemma adopt_pk [simp]: "pk (fst (adopt h B u) x) = pk (h x)"
  by (induction B arbitrary: h) simp_all

lemma adopt_payload [simp]: "payload (fst (adopt h B u) x) = payload (h x)"
  by (induction B arbitrary: h) simp_all

lemma adopt_subset: "set (snd (adopt h B u)) \<subseteq> set B"
  by (induction B arbitrary: h) auto

text \<open>
  When the parent of every batch article equals \<open>u\<close> exactly when it is \<open>u\<close>, the scan
  changes nothing and picks the children of \<open>u\<close>.
\<close>

lemma adopt_fresh:
  "(\<forall>a \<in> set B. \<forall>p. parent (h a) = PRef p \<longrightarrow> (py_eq h p u \<longleftrightarrow> p = u)) \<Longrightarrow>
     adopt h B u = (h, filter (\<lambda>a. parent (h a) = PRef u) B)"
proof (induction B)
  case Nil
  then show ?case by simp
next
  case (Cons a B)
  then show ?case
    by (cases "parent (h a)") (auto simp: fun_upd_idem)
qed

lemma py_eq_fresh:
  assumes "keys_issued h d" and "pk (h u) = None"
  shows "py_eq (h(u := (h u)\<lparr>pk := Some (next_pk d)\<rparr>)) p u \<longleftrightarrow> p = u"
  using assms by (auto simp: py_eq_def keys_issued_def split: option.splits)

lemma roots_fresh:
  "\<forall>a \<in> set B. pk (h a) = None \<Longrightarrow> roots h B = filter (is_root h B) B"
  unfolding roots_def is_root_def
proof (rule filter_cong[OF refl])
  fix x assume un: "\<forall>a \<in> set B. pk (h a) = None"
  show "(\<not> has_parent (parent (h x)) \<or> \<not> pref_in h (parent (h x)) B) = (\<forall>p\<in>set B. parent (h x) \<noteq> PRef p)"
    using un by (cases "parent (h x)") (auto simp: py_eq_def split: option.splits)
qed

section \<open>The loop: one step\<close>

text \<open>
  A run of the loop that returns, by its first step: the work list is empty, or the
  save of its head raised, or was rolled back (the loop goes on with the rest), or
  saved the head, which is yielded after the adoption scan appended its children.
\<close>

lemma sio_loop_Suc_cases [consumes 1, case_names stop raise skip saved]:
  assumes "sio_loop (Suc n) chk B q (h, d) = Some ((h', d'), ys, e)"
  obtains (stop) "q = []" "h' = h" "d' = d" "ys = []"
  | (raise) u q' ex where "q = u # q'" "save chk (h, d) u = ((h', d'), Inl ex)" "ys = []"
  | (skip) u q' h1 d1 where "q = u # q'" "save chk (h, d) u = ((h1, d1), Inr None)"
      "sio_loop n chk B q' (h1, d1) = Some ((h', d'), ys, e)"
  | (saved) u q' h1 d1 h2 new ys' where "q = u # q'" "save chk (h, d) u = ((h1, d1), Inr (Some u))"
      "adopt h1 B u = (h2, new)" "sio_loop n chk B (q' @ new) (h2, d1) = Some ((h', d'), ys', e)" "ys = u # ys'"
proof (cases q)
  case Nil
  with assms show ?thesis using that(1) by simp
next
  case (Cons u q')
  obtain h1 d1 r where sv: "save chk (h, d) u = ((h1, d1), r)" by (metis surj_pair)
  show ?thesis
  proof (cases r)
    case (Inl ex)
    with assms Cons sv show ?thesis using that(2) by auto
  next
    case (Inr v)
    show ?thesis
    proof (cases v)
      case None
      with assms Cons sv Inr show ?thesis using that(3) by auto
    next
      case (Some w)
      have w: "w = u" using save_Some[OF sv[unfolded Inr Some]] by simp
      obtain h2 new where ad: "adopt h1 B u = (h2, new)" by fastforce
      from assms Cons sv Inr Some ad obtain ys' where
        run: "sio_loop n chk B (q' @ new) (h2, d1) = Some ((h', d'), ys', e)" and ys: "ys = u # ys'"
        by (auto simp: w split: option.splits)
      show ?thesis using that(4)[OF Cons sv[unfolded Inr Some w] ad run ys] .
    qed
  qed
qed

section \<open>The loop: what it writes\<close>

text \<open>
  Every run of the loop, whatever the batch: the transaction's earlier rows stay, and
  the rows it adds are one per yielded article, in yield order, each with the key the
  article holds at the end; a key an object holds is never changed.
\<close>

lemma sio_loop_log:
  "sio_loop n chk B q (h, d) = Some ((h', d'), ys, e) \<Longrightarrow>
     (\<exists>rows. log d' = log d @ rows \<and> map (\<lambda>r. Some (row_pk r)) rows = map (\<lambda>x. pk (h' x)) ys) \<and>
     (\<forall>x k. pk (h x) = Some k \<longrightarrow> pk (h' x) = Some k)"
proof (induction n arbitrary: q h d ys e)
  case 0
  then show ?case by simp
next
  case (Suc n)
  from Suc.prems show ?case
  proof (cases rule: sio_loop_Suc_cases)
    case stop
    then show ?thesis by simp
  next
    case (raise u q' ex)
    with save_Inl[OF raise(2)] show ?thesis by simp
  next
    case (skip u q' h1 d1)
    from save_None[OF skip(2)] have "h1 = h" "log d1 = log d" by auto
    with Suc.IH[OF skip(3)] show ?thesis by simp
  next
    case (saved u q' h1 d1 h2 new ys')
    have pk2: "\<And>x. pk (h2 x) = pk (h1 x)" using adopt_pk[of h1 B u] saved(3) by simp
    from save_Some[OF saved(2)] obtain par where
      h1: "h1 = h(u := (h u)\<lparr>pk := Some (case pk (h u) of Some k \<Rightarrow> k | None \<Rightarrow> next_pk d)\<rparr>)" and
      l1: "log d1 = log d @ [\<lparr>row_pk = (case pk (h u) of Some k \<Rightarrow> k | None \<Rightarrow> next_pk d), row_parent = par, row_data = payload (h u)\<rparr>]"
      by (auto simp: Let_def)
    from Suc.IH[OF saved(4)] obtain rows where rows: "log d' = log d1 @ rows" "map (\<lambda>r. Some (row_pk r)) rows = map (\<lambda>x. pk (h' x)) ys'"
      and keep: "\<forall>x k. pk (h2 x) = Some k \<longrightarrow> pk (h' x) = Some k" by blast
    have "pk (h' u) = Some (case pk (h u) of Some k \<Rightarrow> k | None \<Rightarrow> next_pk d)"
      using keep pk2 h1 by simp
    moreover have "\<forall>x k. pk (h x) = Some k \<longrightarrow> pk (h' x) = Some k"
    proof (intro allI impI)
      fix x k assume "pk (h x) = Some k"
      then have "pk (h2 x) = Some k" using pk2 h1 by (cases "x = u") auto
      then show "pk (h' x) = Some k" using keep by blast
    qed
    ultimately show ?thesis using rows l1 saved(5) by (auto split: option.splits)
  qed
qed



section \<open>The loop on a fresh batch\<close>

lemma sio_invD:
  assumes "sio_inv h0 B E Y q h d"
  shows "\<not> aborted d" "keys_issued h d" "distinct B" "\<forall>x. parent (h x) = parent (h0 x)"
    "distinct q" "set q \<subseteq> E" "E \<subseteq> set B"
    "\<forall>x \<in> set B. pk (h x) \<noteq> None \<longrightarrow> x \<in> E - set q"
    "\<forall>x \<in> set B. x \<in> E \<longleftrightarrow>
        is_root h0 B x \<or> (\<exists>p. parent (h0 x) = PRef p \<and> p \<in> E - set q \<and> pk (h p) \<noteq> None)"
    "\<forall>x \<in> set q. \<forall>p. parent (h0 x) = PRef p \<and> p \<in> set B \<longrightarrow> p \<in> set Y"
    "\<forall>x \<in> set B. x \<in> set Y \<longleftrightarrow> x \<in> E - set q \<and> pk (h x) \<noteq> None" "distinct Y"
  by (insert assms[unfolded sio_inv_def]) (elim conjE; assumption)+

lemma sio_invI:
  assumes "\<not> aborted d" "keys_issued h d" "distinct B" "\<forall>x. parent (h x) = parent (h0 x)"
    "distinct q" "set q \<subseteq> E" "E \<subseteq> set B"
    "\<forall>x \<in> set B. pk (h x) \<noteq> None \<longrightarrow> x \<in> E - set q"
    "\<forall>x \<in> set B. x \<in> E \<longleftrightarrow>
        is_root h0 B x \<or> (\<exists>p. parent (h0 x) = PRef p \<and> p \<in> E - set q \<and> pk (h p) \<noteq> None)"
    "\<forall>x \<in> set q. \<forall>p. parent (h0 x) = PRef p \<and> p \<in> set B \<longrightarrow> p \<in> set Y"
    "\<forall>x \<in> set B. x \<in> set Y \<longleftrightarrow> x \<in> E - set q \<and> pk (h x) \<noteq> None" "distinct Y"
  shows "sio_inv h0 B E Y q h d"
  unfolding sio_inv_def by (intro conjI) (rule assms)+

lemma sio_inv_head_unsaved: "sio_inv h0 B E Y (u # q) h d \<Longrightarrow> pk (h u) = None \<and> u \<in> set B \<and> u \<in> E"
proof -
  assume inv: "sio_inv h0 B E Y (u # q) h d"
  note D = sio_invD[OF inv]
  from D(6,7) have uE: "u \<in> E" and uB: "u \<in> set B" by auto
  with D(8) have "pk (h u) = None" by auto
  with uE uB show ?thesis by blast
qed

lemma sio_inv_skip:
  assumes inv: "sio_inv h0 B E Y (u # q) h d"
    and sv: "save chk (h, d) u = ((h1, d1), Inr None)"
  shows "sio_inv h0 B E Y q h1 d1"
proof -
  from save_None[OF sv] have h1: "h1 = h" and ab: "\<not> aborted d1" and nx: "next_pk d \<le> next_pk d1" by auto
  from sio_inv_head_unsaved[OF inv] have u: "pk (h u) = None" by blast
  note D = sio_invD[OF inv]
  have E_q: "E - set q = (E - set (u # q)) \<union> {u}"
    using D(5,6) by auto
  show ?thesis
    unfolding h1
  proof (rule sio_invI)
    show "\<not> aborted d1" by (fact ab)
    show "keys_issued h d1" using D(2) nx unfolding keys_issued_def by (meson less_le_trans)
    show "distinct B" by (fact D(3))
    show "\<forall>x. parent (h x) = parent (h0 x)" by (fact D(4))
    show "distinct q" using D(5) by simp
    show "set q \<subseteq> E" using D(6) by simp
    show "E \<subseteq> set B" by (fact D(7))
    show "\<forall>x\<in>set B. pk (h x) \<noteq> None \<longrightarrow> x \<in> E - set q" using D(8) unfolding E_q by blast
    show "\<forall>x\<in>set B. (x \<in> E) = (is_root h0 B x \<or> (\<exists>p. parent (h0 x) = PRef p \<and> p \<in> E - set q \<and> pk (h p) \<noteq> None))"
      using D(9) u unfolding E_q by blast
    show "\<forall>x\<in>set q. \<forall>p. parent (h0 x) = PRef p \<and> p \<in> set B \<longrightarrow> p \<in> set Y" using D(10) by simp
    show "\<forall>x\<in>set B. (x \<in> set Y) = (x \<in> E - set q \<and> pk (h x) \<noteq> None)" using D(11) u unfolding E_q by blast
    show "distinct Y" by (fact D(12))
  qed
qed

lemma sio_inv_save:
  assumes inv: "sio_inv h0 B E Y (u # q) h d"
    and sv: "save chk (h, d) u = ((h1, d1), Inr (Some v))"
  defines "C \<equiv> children h0 B u"
  shows "v = u \<and> adopt h1 B u = (h1, C) \<and> sio_inv h0 B (E \<union> set C) (Y @ [u]) (q @ C) h1 d1"
proof -
  note D = sio_invD[OF inv]
  from sio_inv_head_unsaved[OF inv] have u: "pk (h u) = None" "u \<in> set B" "u \<in> E" by auto
  from save_Some[OF sv] u(1) have v: "v = u" and ab: "\<not> aborted d1"
    and h1: "h1 = h(u := (h u)\<lparr>pk := Some (next_pk d)\<rparr>)" and nx: "next_pk d1 = Suc (next_pk d)"
    by (auto simp: Let_def)
  have par1: "\<And>x. parent (h1 x) = parent (h0 x)" using D(4) h1 by simp
  have adopt1: "adopt h1 B u = (h1, C)"
  proof -
    have "\<forall>a \<in> set B. \<forall>p. parent (h1 a) = PRef p \<longrightarrow> (py_eq h1 p u \<longleftrightarrow> p = u)"
      using py_eq_fresh[OF D(2) u(1)] h1 by simp
    from adopt_fresh[OF this] show ?thesis by (simp add: C_def children_def par1)
  qed
  have inC: "\<And>x. x \<in> set C \<longleftrightarrow> x \<in> set B \<and> parent (h0 x) = PRef u" by (auto simp: C_def children_def)
  have C_out: "\<forall>c \<in> set C. c \<notin> E"
  proof
    fix c assume "c \<in> set C"
    then have c: "c \<in> set B" "parent (h0 c) = PRef u" using inC by auto
    with u(2) have "\<not> is_root h0 B c" by (auto simp: is_root_def)
    moreover have "\<not> (\<exists>p. parent (h0 c) = PRef p \<and> p \<in> E - set (u # q) \<and> pk (h p) \<noteq> None)"
      using c by auto
    ultimately show "c \<notin> E" using D(9) c(1) by blast
  qed
  have dC: "distinct C" using D(3) by (simp add: C_def children_def)
  have diff: "(E \<union> set C) - set (q @ C) = (E - set (u # q)) \<union> {u}"
    using C_out D(5,6) by auto
  have pk1: "\<And>x. pk (h1 x) \<noteq> None \<longleftrightarrow> x = u \<or> pk (h x) \<noteq> None" using h1 by simp
  have uY: "u \<notin> set Y" using D(11) u by auto
  have inv': "sio_inv h0 B (E \<union> set C) (Y @ [u]) (q @ C) h1 d1"
  proof (rule sio_invI)
    show "\<not> aborted d1" by (fact ab)
    show "keys_issued h1 d1"
      using D(2) nx h1 unfolding keys_issued_def by (auto dest: less_SucI)
    show "distinct B" by (fact D(3))
    show "\<forall>x. parent (h1 x) = parent (h0 x)" using par1 by simp
    show "distinct (q @ C)" using D(5,6) dC C_out by auto
    show "set (q @ C) \<subseteq> E \<union> set C" using D(6) by auto
    show "E \<union> set C \<subseteq> set B" using D(7) inC by auto
    show "\<forall>x\<in>set B. pk (h1 x) \<noteq> None \<longrightarrow> x \<in> (E \<union> set C) - set (q @ C)"
      unfolding diff using D(8) pk1 by auto
    show "\<forall>x\<in>set B. (x \<in> E \<union> set C) =
            (is_root h0 B x \<or> (\<exists>p. parent (h0 x) = PRef p \<and> p \<in> (E \<union> set C) - set (q @ C) \<and> pk (h1 p) \<noteq> None))"
      unfolding diff using D(9) pk1 inC by auto
    show "\<forall>x\<in>set (q @ C). \<forall>p. parent (h0 x) = PRef p \<and> p \<in> set B \<longrightarrow> p \<in> set (Y @ [u])"
      using D(10) inC by auto
    show "\<forall>x\<in>set B. (x \<in> set (Y @ [u])) = (x \<in> (E \<union> set C) - set (q @ C) \<and> pk (h1 x) \<noteq> None)"
      unfolding diff using D(11) pk1 u by auto
    show "distinct (Y @ [u])" using D(12) uY by simp
  qed
  from v adopt1 inv' show ?thesis by blast
qed

lemma sio_loop_fresh:
  "sio_inv h0 B E Y q h d \<Longrightarrow> sio_loop n chk B q (h, d) = Some ((h', d'), ys, e) \<Longrightarrow>
     distinct (Y @ ys) \<and> set ys \<subseteq> set B \<and>
     (\<forall>j < length ys. \<forall>p. parent (h0 (ys ! j)) = PRef p \<and> p \<in> set B \<longrightarrow> p \<in> set (Y @ take j ys))"
proof (induction n arbitrary: E Y q h d ys e)
  case 0
  then show ?case by simp
next
  case (Suc n)
  from Suc.prems(2) show ?case
  proof (cases rule: sio_loop_Suc_cases)
    case stop
    with sio_invD(12)[OF Suc.prems(1)] show ?thesis by simp
  next
    case raise
    with sio_invD(12)[OF Suc.prems(1)] show ?thesis by simp
  next
    case (skip u q' h1 d1)
    from sio_inv_skip[OF Suc.prems(1)[unfolded skip(1)] skip(2)] have "sio_inv h0 B E Y q' h1 d1" .
    from Suc.IH[OF this skip(3)] show ?thesis .
  next
    case (saved u q' h1 d1 h2 new ys')
    let ?C = "children h0 B u"
    from sio_inv_save[OF Suc.prems(1)[unfolded saved(1)] saved(2)]
    have ad: "adopt h1 B u = (h1, ?C)"
      and inv': "sio_inv h0 B (E \<union> set ?C) (Y @ [u]) (q' @ ?C) h1 d1" by auto
    from saved(3,4) ad have run: "sio_loop n chk B (q' @ ?C) (h1, d1) = Some ((h', d'), ys', e)" by simp
    from Suc.IH[OF inv' run] have
      d: "distinct ((Y @ [u]) @ ys')" and sB: "set ys' \<subseteq> set B" and
      ord: "\<forall>j < length ys'. \<forall>p. parent (h0 (ys' ! j)) = PRef p \<and> p \<in> set B \<longrightarrow> p \<in> set ((Y @ [u]) @ take j ys')"
      by auto
    from sio_invD(6,7,10)[OF Suc.prems(1)] saved(1) have uB: "u \<in> set B"
      and upar: "\<forall>p. parent (h0 u) = PRef p \<and> p \<in> set B \<longrightarrow> p \<in> set Y"
      by auto
    have "\<forall>j < length ys. \<forall>p. parent (h0 (ys ! j)) = PRef p \<and> p \<in> set B \<longrightarrow> p \<in> set (Y @ take j ys)"
    proof (intro allI impI)
      fix j p assume j: "j < length ys" and pp: "parent (h0 (ys ! j)) = PRef p \<and> p \<in> set B"
      show "p \<in> set (Y @ take j ys)"
      proof (cases j)
        case 0
        with pp upar saved(5) show ?thesis by simp
      next
        case (Suc j')
        with j saved(5) have "j' < length ys'" by simp
        with ord pp saved(5) Suc show ?thesis by auto
      qed
    qed
    with d sB uB saved(5) show ?thesis by simp
  qed
qed

text \<open>The children of the head of the work list were never on it.\<close>

lemma children_unentered:
  assumes inv: "sio_inv h0 B E Y (u # q') h d"
  shows "set (children h0 B u) \<subseteq> set B - E"
proof
  fix c assume c: "c \<in> set (children h0 B u)"
  have cB: "c \<in> set B" "parent (h0 c) = PRef u" using c by (auto simp: children_def)
  have "c \<notin> E"
  proof
    assume "c \<in> E"
    from sio_invD(6,7)[OF inv] have uB: "u \<in> set B" by auto
    from sio_invD(9)[OF inv] cB(1) \<open>c \<in> E\<close> have
      "is_root h0 B c \<or> (\<exists>p. parent (h0 c) = PRef p \<and> p \<in> E - set (u # q') \<and> pk (h p) \<noteq> None)"
      by blast
    with cB uB show False by (auto simp: is_root_def)
  qed
  with cB(1) show "c \<in> set B - E" by simp
qed

lemma card_diff_children:
  assumes "set C \<subseteq> set B - E" and "distinct C"
  shows "card (set B - (E \<union> set C)) + length C = card (set B - E)"
proof -
  have "set B - (E \<union> set C) = (set B - E) - set C" by auto
  moreover have "card ((set B - E) - set C) = card (set B - E) - card (set C)"
    using assms(1) by (simp add: card_Diff_subset finite_subset)
  moreover have "card (set C) \<le> card (set B - E)"
    using assms(1) by (simp add: card_mono)
  ultimately show ?thesis using assms(2) by (simp add: distinct_card)
qed

lemma sio_loop_fresh_terminates:
  "sio_inv h0 B E Y q h d \<Longrightarrow> length q + card (set B - E) < n \<Longrightarrow> \<exists>r. sio_loop n chk B q (h, d) = Some r"
proof (induction n arbitrary: E Y q h d)
  case 0
  then show ?case by simp
next
  case (Suc n)
  show ?case
  proof (cases q)
    case Nil
    then show ?thesis by simp
  next
    case (Cons u q')
    obtain h1 d1 r where sv: "save chk (h, d) u = ((h1, d1), r)" by (metis surj_pair)
    show ?thesis
    proof (cases r)
      case (Inl ex)
      with Cons sv show ?thesis by simp
    next
      case (Inr v)
      show ?thesis
      proof (cases v)
        case None
        from sio_inv_skip[OF Suc.prems(1)[unfolded Cons] sv[unfolded Inr None]]
        have inv': "sio_inv h0 B E Y q' h1 d1" .
        from Suc.prems(2) Cons have "length q' + card (set B - E) < n" by simp
        from Suc.IH[OF inv' this] None Inr Cons sv show ?thesis by simp
      next
        case (Some w)
        let ?C = "children h0 B u"
        from sio_inv_save[OF Suc.prems(1)[unfolded Cons] sv[unfolded Inr Some]]
        have ad: "adopt h1 B u = (h1, ?C)"
          and inv': "sio_inv h0 B (E \<union> set ?C) (Y @ [u]) (q' @ ?C) h1 d1" by auto
        from sio_invD(5,7)[OF inv'] have "distinct (q' @ ?C)" by auto
        have CE: "set ?C \<subseteq> set B - E" using children_unentered[OF Suc.prems(1)[unfolded Cons]] .
        have dC: "distinct ?C" using \<open>distinct (q' @ ?C)\<close> by simp
        from card_diff_children[OF CE dC] Suc.prems(2) Cons
        have "length (q' @ ?C) + card (set B - (E \<union> set ?C)) < n" by simp
        from Suc.IH[OF inv' this] obtain r' where "sio_loop n chk B (q' @ ?C) (h1, d1) = Some r'" by blast
        with Cons sv Inr Some ad show ?thesis by (auto split: prod.splits)
      qed
    qed
  qed
qed

lemma sio_inv_start:
  "fresh_batch h d B \<Longrightarrow> sio_inv h B (set (roots h B)) [] (roots h B) h d"
  unfolding fresh_batch_def sio_inv_def
  by (auto simp: roots_fresh is_root_def)

section \<open>A batch the loop never finishes\<close>

text \<open>
  In \<open>two_copies_heap\<close>, objects 3 and 4 are two in-memory instances of the stored row
  5 (Django compares them by key), 3 has no parent, 4's parent is the new article 2 and
  2's parent is 3.  3 is the only root; saving it adopts 2, saving 2 adopts 4, and
  saving 4 adopts 2 again, because 2's parent 3 equals 4: the work list alternates
  between 2 and 4 for ever, each time writing another row.
\<close>

lemma save_in_order_cycle:
  assumes "H 3 = \<lparr>pk = Some 5, parent = PNone, payload = ()\<rparr>"
    and "H 4 = \<lparr>pk = Some 5, parent = PRef 2, payload = ()\<rparr>"
    and "H 2 = \<lparr>pk = Some 10, parent = PRef 4, payload = ()\<rparr>"
  shows "sio_loop n (\<lambda>_ _. None) [3, 4, 2] [2] (H, \<lparr>log = L, next_pk = 11, aborted = False\<rparr>) = None \<and>
         sio_loop n (\<lambda>_ _. None) [3, 4, 2] [4] (H, \<lparr>log = L, next_pk = 11, aborted = False\<rparr>) = None"
  using assms
proof (induction n arbitrary: H L)
  case 0
  then show ?case by simp
next
  case (Suc n)
  have IH2: "sio_loop n (\<lambda>_ _. None) [3, 4, 2] [2] (H', \<lparr>log = L', next_pk = 11, aborted = False\<rparr>) = None"
    and IH4: "sio_loop n (\<lambda>_ _. None) [3, 4, 2] [4] (H', \<lparr>log = L', next_pk = 11, aborted = False\<rparr>) = None"
    if "H' 3 = \<lparr>pk = Some 5, parent = PNone, payload = ()\<rparr>"
      and "H' 4 = \<lparr>pk = Some 5, parent = PRef 2, payload = ()\<rparr>"
      and "H' 2 = \<lparr>pk = Some 10, parent = PRef 4, payload = ()\<rparr>" for H' L'
    using Suc.IH[OF that] by blast+
  show ?case
    using Suc.prems
    by (simp add: save_def savepoint_def model_save_def db_write_def py_eq_def savepoint_rollback_def IH2 IH4)
qed

section \<open>Properties of save_in_order\<close>

lemma save_in_order_fresh:
  assumes "fresh_batch h d B" and "save_in_order n chk B (h, d) = Some (s', ys, e)"
  shows "distinct ys \<and> set ys \<subseteq> set B \<and>
         (\<forall>j < length ys. \<forall>p. parent (h (ys ! j)) = PRef p \<and> p \<in> set B \<longrightarrow> p \<in> set (take j ys))"
proof -
  obtain h' d' where "s' = (h', d')" by fastforce
  with assms(2) have "sio_loop n chk B (roots h B) (h, d) = Some ((h', d'), ys, e)"
    by (simp add: save_in_order_def)
  from sio_loop_fresh[OF sio_inv_start[OF assms(1)] this] show ?thesis by simp
qed

lemma run_of_map_option_snd:
  "map_option snd r = Some g \<Longrightarrow> \<exists>s'. r = Some (s', g)"
  by (cases r) auto

text \<open>
  C1. Parents first: on a batch of new distinct articles, every article that
  \<open>save_in_order\<close> yields comes after its parent whenever that parent is in the batch.
\<close>

theorem save_in_order_parent_first:
  assumes "fresh_batch h d B" and "save_in_order n chk B (h, d) = Some (s', ys, e)"
  shows "\<forall>j < length ys. \<forall>p. parent (h (ys ! j)) = PRef p \<and> p \<in> set B \<longrightarrow> p \<in> set (take j ys)"
  using save_in_order_fresh[OF assms] by blast

theorem save_in_order_parent_first_witness:
  "fresh_batch ex_heap ex_db [4, 3, 2] \<and>
   map_option snd (save_in_order 4 accept_all [4, 3, 2] (ex_heap, ex_db)) = Some ([2, 3, 4], None) \<and>
   parent (ex_heap ([2, 3, 4] ! 2)) = PRef 3 \<and> (3::oid) \<in> set (take 2 [2, 3, 4])"
proof -
  have f: "fresh_batch ex_heap ex_db [4, 3, 2]"
    by (auto simp: fresh_batch_def keys_issued_def ex_heap_def ex_db_def)
  have r: "map_option snd (save_in_order 4 accept_all [4, 3, 2] (ex_heap, ex_db)) = Some ([2, 3, 4], None)"
    by code_simp
  from run_of_map_option_snd[OF r] obtain s' where
    "save_in_order 4 accept_all [4, 3, 2] (ex_heap, ex_db) = Some (s', [2, 3, 4], None)" by blast
  from save_in_order_parent_first[OF f this] have
    "parent (ex_heap ([2, 3, 4] ! 2)) = PRef 3 \<and> (3::oid) \<in> set [4, 3, 2] \<longrightarrow> (3::oid) \<in> set (take 2 [2, 3, 4])"
    by simp
  moreover have "parent (ex_heap ([2, 3, 4] ! 2)) = PRef 3" by (simp add: ex_heap_def)
  ultimately show ?thesis using f r by simp
qed



text \<open>
  C3. Scoped rollback: when \<open>Controller.save\<close> reports a storage failure (returns
  \<open>None\<close>), the object is untouched, the transaction holds exactly the rows it held
  before, and it is usable again (not left aborted).
\<close>

theorem save_rollback:
  assumes "save chk (h, d) u = ((h', d'), Inr None)"
  shows "h' = h \<and> log d' = log d \<and> \<not> aborted d'"
  using save_None[OF assms] by blast

theorem save_rollback_witness:
  "save reject_11 (ex_heap, ex_db\<lparr>next_pk := 11\<rparr>) 2 = ((ex_heap, ex_db\<lparr>next_pk := 12\<rparr>), Inr None) \<and>
   ex_heap = ex_heap \<and> log (ex_db\<lparr>next_pk := 12\<rparr>) = log (ex_db\<lparr>next_pk := 11\<rparr>) \<and>
   \<not> aborted (ex_db\<lparr>next_pk := 12\<rparr>)"
proof -
  have r: "save reject_11 (ex_heap, ex_db\<lparr>next_pk := 11\<rparr>) 2 = ((ex_heap, ex_db\<lparr>next_pk := 12\<rparr>), Inr None)"
    by (simp add: save_def savepoint_def model_save_def db_write_def savepoint_rollback_def
        reject_11_def ex_heap_def ex_db_def Let_def)
  from save_rollback[OF r] r show ?thesis by simp
qed

text \<open>
  C4. What is persisted is what is reported: a run of \<open>save_in_order\<close> keeps every
  earlier row of the transaction and adds exactly one row per yielded article, in
  yield order, carrying that article's primary key.
\<close>

theorem save_in_order_rows:
  assumes "save_in_order n chk B (h, d) = Some ((h', d'), ys, e)"
  shows "\<exists>rows. log d' = log d @ rows \<and> map (\<lambda>r. Some (row_pk r)) rows = map (\<lambda>x. pk (h' x)) ys"
  using sio_loop_log[of n chk B "roots h B" h d h' d' ys e] assms
  by (simp add: save_in_order_def)

theorem save_in_order_rows_witness:
  "\<exists>h' d' ys e. save_in_order 4 reject_11 [4, 3, 2] (ex_heap, ex_db) = Some ((h', d'), ys, e) \<and>
     (\<exists>rows. log d' = log ex_db @ rows \<and> map (\<lambda>r. Some (row_pk r)) rows = map (\<lambda>x. pk (h' x)) ys)"
proof -
  have "map_option snd (save_in_order 4 reject_11 [4, 3, 2] (ex_heap, ex_db)) = Some ([2], None)"
    by code_simp
  from run_of_map_option_snd[OF this] obtain h' d' where
    run: "save_in_order 4 reject_11 [4, 3, 2] (ex_heap, ex_db) = Some ((h', d'), [2], None)"
    by fastforce
  from save_in_order_rows[OF run] run show ?thesis by blast
qed



text \<open>
  C6. Termination on a fresh batch: one unit of fuel per article and one for the exit
  suffice, so \<open>save_in_order\<close> returns (normally or with an exception) on every
  batch of distinct new articles.
\<close>

theorem save_in_order_terminates:
  assumes "fresh_batch h d B"
  shows "\<exists>r. save_in_order (Suc (length B)) chk B (h, d) = Some r"
proof -
  let ?R = "roots h B"
  from assms have dB: "distinct B" by (simp add: fresh_batch_def)
  then have dR: "distinct ?R" by (simp add: roots_def)
  have "length ?R + card (set B - set ?R) = length B"
  proof -
    have sub: "set ?R \<subseteq> set B" by (auto simp: roots_def)
    then have "card (set B - set ?R) = card (set B) - card (set ?R)"
      by (simp add: card_Diff_subset)
    moreover have "card (set ?R) \<le> card (set B)" using sub by (simp add: card_mono)
    ultimately show ?thesis using dB dR by (simp add: distinct_card)
  qed
  then have "length ?R + card (set B - set ?R) < Suc (length B)" by simp
  from sio_loop_fresh_terminates[OF sio_inv_start[OF assms] this] show ?thesis
    by (simp add: save_in_order_def)
qed

theorem save_in_order_terminates_witness:
  "fresh_batch ex_heap ex_db [4, 3, 2] \<and>
   (\<exists>r. save_in_order (Suc (length [4, 3, 2::oid])) reject_11 [4, 3, 2] (ex_heap, ex_db) = Some r)"
proof -
  have f: "fresh_batch ex_heap ex_db [4, 3, 2]"
    by (auto simp: fresh_batch_def keys_issued_def ex_heap_def ex_db_def)
  from save_in_order_terminates[OF f] f show ?thesis by blast
qed

text \<open>
  C7. \<open>save_in_order\<close> need not terminate: on the batch \<open>two_copies_heap\<close> (two
  in-memory instances of one stored row, with a parent cycle through them) it runs out
  of every amount of fuel, writing a new row in each round.  The cycle is not silently
  dropped, as the specification's design notes expect.
\<close>

theorem save_in_order_diverges:
  "save_in_order n (\<lambda>_ _. None) [3, 4, 2] (two_copies_heap, \<lparr>log = [], next_pk = 10, aborted = False\<rparr>) = None"
proof -
  consider "n \<le> 3" | m where "n = Suc (Suc (Suc m))"
    by (metis le_add_diff_inverse2 nat_le_linear add_Suc_right add_0_right numeral_3_eq_3 not_less_eq_eq Suc_le_D)
  then show ?thesis
  proof cases
    case 1
    then have "n = 0 \<or> n = 1 \<or> n = 2 \<or> n = 3" by auto
    then show ?thesis
      by (auto simp: save_in_order_def roots_def two_copies_heap_def save_def savepoint_def model_save_def
          db_write_def py_eq_def savepoint_rollback_def numeral_eq_Suc)
  next
    case 2
    let ?H = "two_copies_heap(3 := two_copies_heap 3\<lparr>pk := Some 5\<rparr>, 2 := (two_copies_heap 2)\<lparr>pk := Some 10\<rparr>,
                4 := (two_copies_heap 4)\<lparr>pk := Some 5, parent := PRef 2\<rparr>,
                2 := (two_copies_heap 2)\<lparr>pk := Some 10, parent := PRef 4\<rparr>)"
    have "sio_loop m (\<lambda>_ _. None) [3, 4, 2] [2]
            (?H, \<lparr>log = [\<lparr>row_pk = 5, row_parent = None, row_data = ()\<rparr>,
                         \<lparr>row_pk = 10, row_parent = Some 5, row_data = ()\<rparr>,
                         \<lparr>row_pk = 5, row_parent = Some 10, row_data = ()\<rparr>],
                  next_pk = 11, aborted = False\<rparr>) = None"
      using save_in_order_cycle[of ?H] by (simp add: two_copies_heap_def)
    then show ?thesis using 2
      by (simp add: save_in_order_def roots_def two_copies_heap_def save_def savepoint_def model_save_def
          db_write_def py_eq_def savepoint_rollback_def)
  qed
qed

text \<open>
  C8. Each article of a fresh batch is saved at most once: the yielded articles are
  distinct and all come from the batch.
\<close>

theorem save_in_order_once:
  assumes "fresh_batch h d B" and "save_in_order n chk B (h, d) = Some (s', ys, e)"
  shows "distinct ys \<and> set ys \<subseteq> set B"
  using save_in_order_fresh[OF assms] by blast

theorem save_in_order_once_witness:
  "fresh_batch ex_heap ex_db [4, 3, 2] \<and>
   map_option snd (save_in_order 4 accept_all [4, 3, 2] (ex_heap, ex_db)) = Some ([2, 3, 4], None) \<and>
   distinct [2, 3, 4::oid] \<and> set [2, 3, 4::oid] \<subseteq> set [4, 3, 2]"
proof -
  have f: "fresh_batch ex_heap ex_db [4, 3, 2]"
    by (auto simp: fresh_batch_def keys_issued_def ex_heap_def ex_db_def)
  have r: "map_option snd (save_in_order 4 accept_all [4, 3, 2] (ex_heap, ex_db)) = Some ([2, 3, 4], None)"
    by code_simp
  from run_of_map_option_snd[OF r] obtain s' where
    "save_in_order 4 accept_all [4, 3, 2] (ex_heap, ex_db) = Some (s', [2, 3, 4], None)" by blast
  from save_in_order_once[OF f this] f r show ?thesis by blast
qed

end
