(* ===== verification/Controllers.thy ===== *)
theory Controllers
  imports Saver
begin

text \<open>
  The controllers of \<open>src/amcat/scraping/controller.py\<close>: \<open>Controller.scrape\<close>
  (lines 48--76), \<open>SimpleController._scrape\<close> (112--121) and \<open>RobustController\<close>
  (123--168), driving harvesters (scrapers) through the saver of \<open>Saver\<close>, and the
  test scrapers of the same file (\<open>_TestScraper\<close>, \<open>_ErrorArticle\<close>,
  \<open>_ErrorScraper\<close>, lines 211--275).  A harvester is the external collaborator of
  spec section 6: a discovery generator, a per-unit generator of new articles, its
  options' date and its target article set.
\<close>

section \<open>Harvesters\<close>

text \<open>
  A harvested article is created by the harvester: its \<open>parent\<close> attribute is absent,
  \<open>None\<close>, the \<open>j\<close>-th article created for the same unit, or an existing object.
\<close>

datatype sparent = SNoAttr | SNone | SLocal nat | SObj oid

record 'p art_spec =
  s_parent :: sparent
  s_payload :: 'p

record ('u, 'p, 'dt) harvester =
  get_units :: "'u gen"
  scrape_unit :: "'u \<Rightarrow> 'p art_spec gen"
  options_date :: "'dt option"
  articleset :: nat

text \<open>
  The state a controller threads: the heap and the transaction (as in \<open>Saver\<close>), the
  next free object address, and \<open>RobustController.errors\<close>.
\<close>

datatype 'u scrape_error = ScrapeError "nat option" "'u option" exc

record ('u, 'p) cstate =
  c_heap :: "'p heap"
  c_db :: "'p db"
  c_free :: oid
  errors :: "'u scrape_error list"

fun spec_pref :: "oid \<Rightarrow> sparent \<Rightarrow> pref" where
  "spec_pref base SNoAttr = NoAttr"
| "spec_pref base SNone = PNone"
| "spec_pref base (SLocal j) = PRef (base + j)"
| "spec_pref base (SObj x) = PRef x"

text \<open>Creating the articles of one unit at consecutive free addresses.\<close>

fun alloc :: "'p heap \<Rightarrow> oid \<Rightarrow> nat \<Rightarrow> 'p art_spec list \<Rightarrow> 'p heap \<times> oid list" where
  "alloc h base i [] = (h, [])"
| "alloc h base i (a # as) =
     apsnd (Cons (base + i))
       (alloc (h(base + i := \<lparr>pk = None, parent = spec_pref base (s_parent a), payload = s_payload a\<rparr>))
          base (Suc i) as)"

text \<open>\<open>list(scraper.scrape_unit(unit))\<close>: the unit's articles, or the exception.\<close>

definition harvest :: "('u, 'p, 'dt) harvester \<Rightarrow> 'u \<Rightarrow> ('u, 'p) cstate \<Rightarrow> ('u, 'p) cstate \<times> (exc + oid list)" where
  "harvest hv u st =
     (case scrape_unit hv u of
        (specs, ex) \<Rightarrow>
          (case alloc (c_heap st) (c_free st) 0 specs of
             (h', objs) \<Rightarrow> (st\<lparr>c_heap := h', c_free := c_free st + length specs\<rparr>, py_list (objs, ex))))"

text \<open>\<open>self.save_in_order(articles)\<close> on the controller state.\<close>

definition sio_st :: "nat \<Rightarrow> 'p chk \<Rightarrow> oid list \<Rightarrow> ('u, 'p) cstate \<Rightarrow> (('u, 'p) cstate \<times> oid gen) option" where
  "sio_st n chk objs st =
     map_option (\<lambda>((h, d), g). (st\<lparr>c_heap := h, c_db := d\<rparr>, g)) (save_in_order n chk objs (c_heap st, c_db st))"

section \<open>SimpleController._scrape\<close>

text \<open>
  \<^verbatim>\<open>
  @to_list
  def _scrape(self, scraper):
      units = scraper.get_units()
      for unit in units:
          for article in self.save_in_order(scraper.scrape_unit(unit)):
              yield article
  \<close>
  Units are consumed lazily, so the units discovered before a discovery exception are
  processed first; \<open>@to_list\<close> turns any exception into the exception of the whole
  call, discarding what was yielded (but not what was written).
\<close>

fun simple_units ::
  "nat \<Rightarrow> 'p chk \<Rightarrow> ('u, 'p, 'dt) harvester \<Rightarrow> 'u list \<Rightarrow> ('u, 'p) cstate \<Rightarrow>
     (('u, 'p) cstate \<times> (exc + oid list)) option" where
  "simple_units n chk hv [] st = Some (st, Inr [])"
| "simple_units n chk hv (u # us) st =
     (case harvest hv u st of
        (st1, Inl e) \<Rightarrow> Some (st1, Inl e)
      | (st1, Inr objs) \<Rightarrow>
          (case sio_st n chk objs st1 of
             None \<Rightarrow> None
           | Some (st2, ys, Some e) \<Rightarrow> Some (st2, Inl e)
           | Some (st2, ys, None) \<Rightarrow>
               map_option (\<lambda>(st3, r). (st3, map_sum id (\<lambda>zs. ys @ zs) r)) (simple_units n chk hv us st2)))"

definition simple_scrape ::
  "nat \<Rightarrow> 'p chk \<Rightarrow> ('u, 'p, 'dt) harvester \<Rightarrow> ('u, 'p) cstate \<Rightarrow> (('u, 'p) cstate \<times> (exc + oid list)) option" where
  "simple_scrape n chk hv st =
     (case get_units hv of
        (us, ex) \<Rightarrow>
          map_option
            (\<lambda>(st', r). (st', case r of Inl e \<Rightarrow> Inl e | Inr ys \<Rightarrow> (case ex of None \<Rightarrow> Inr ys | Some e \<Rightarrow> Inl e)))
            (simple_units n chk hv us st))"

section \<open>RobustController._scrape\<close>

text \<open>
  \<^verbatim>\<open>
  try:
      units = list(enumerate(scraper.get_units()))
  except Exception as e:
      self.errors.append(ScrapeError(None, None, e))
      raise
  for i, unit in units:
      try:
          for article in self.scrape_unit(scraper, unit):
              result.append(article)
      except Exception as e:
          self.errors.append(ScrapeError(i, unit, e))
  if not result:
      raise Exception("No results returned by _get_units()")
  return result
  \<close>
  \<open>RobustController.scrape_unit\<close> harvests the unit completely (\<open>list(...)\<close>) and then
  yields from \<open>save_in_order\<close>; the articles yielded before an exception of the
  saver stay in \<open>result\<close>.
\<close>

fun robust_units ::
  "nat \<Rightarrow> 'p chk \<Rightarrow> ('u, 'p, 'dt) harvester \<Rightarrow> (nat \<times> 'u) list \<Rightarrow> ('u, 'p) cstate \<Rightarrow> oid list \<Rightarrow>
     (('u, 'p) cstate \<times> oid list) option" where
  "robust_units n chk hv [] st res = Some (st, res)"
| "robust_units n chk hv ((i, u) # ius) st res =
     (case harvest hv u st of
        (st1, Inl e) \<Rightarrow>
          robust_units n chk hv ius (st1\<lparr>errors := errors st1 @ [ScrapeError (Some i) (Some u) e]\<rparr>) res
      | (st1, Inr objs) \<Rightarrow>
          (case sio_st n chk objs st1 of
             None \<Rightarrow> None
           | Some (st2, ys, None) \<Rightarrow> robust_units n chk hv ius st2 (res @ ys)
           | Some (st2, ys, Some e) \<Rightarrow>
               robust_units n chk hv ius (st2\<lparr>errors := errors st2 @ [ScrapeError (Some i) (Some u) e]\<rparr>) (res @ ys)))"

definition no_results :: exc where
  "no_results = Exception ''No results returned by _get_units()''"

definition robust_scrape ::
  "nat \<Rightarrow> 'p chk \<Rightarrow> ('u, 'p, 'dt) harvester \<Rightarrow> ('u, 'p) cstate \<Rightarrow> (('u, 'p) cstate \<times> (exc + oid list)) option" where
  "robust_scrape n chk hv st =
     (case get_units hv of
        (us, Some e) \<Rightarrow> Some (st\<lparr>errors := errors st @ [ScrapeError None None e]\<rparr>, Inl e)
      | (us, None) \<Rightarrow>
          map_option (\<lambda>(st', res). (st', if res = [] then Inl no_results else Inr res))
            (robust_units n chk hv (enumerate 0 us) st []))"

section \<open>Controller.scrape\<close>

text \<open>
  \<^verbatim>\<open>
  try:
      scrapers = iter(scrapers)
  except TypeError:
      scrapers = [scrapers]
  for scraper in scrapers:
      try:
          articles = self._scrape(scraper)
      except Exception:
          log.exception(...)
          continue
      scraper.articleset.add_articles(articles, set_dirty=False)
      all_articles |= set(articles)
      used_sets.add(scraper.articleset.id)
      if deduplicate:
          options = {'articleset' : scraper.articleset.id}
          if 'date' in scraper.options.keys():
              options['first_date'] = scraper.options['date']
              options['last_date'] = scraper.options['date']
          DeduplicateScript(**options).run(None)
  ArticleSet.objects.filter(pk__in=used_sets).update(index_dirty=True)
  return all_articles
  \<close>
  The article sets are external state: their members (\<open>add_articles\<close>), the
  deduplication runs requested, and the sets flagged \<open>index_dirty\<close>.  \<open>_scrape\<close> is
  the controller's own (a parameter: Python's method dispatch).  The returned set holds
  object references; saved articles have distinct keys, so Django's key equality and
  reference identity agree on it.
\<close>

datatype 'h scrapers = One 'h | Many "'h list"

fun scraper_list :: "'h scrapers \<Rightarrow> 'h list" where
  "scraper_list (One h) = [h]"
| "scraper_list (Many hs) = hs"

record 'dt sets =
  members :: "nat \<Rightarrow> oid list"
  dedup_runs :: "(nat \<times> 'dt option \<times> 'dt option) list"
  index_dirty :: "nat set"

type_synonym ('u, 'p, 'dt) scrape_impl =
  "('u, 'p, 'dt) harvester \<Rightarrow> ('u, 'p) cstate \<Rightarrow> (('u, 'p) cstate \<times> (exc + oid list)) option"

definition after_scrape :: "bool \<Rightarrow> ('u, 'p, 'dt) harvester \<Rightarrow> oid list \<Rightarrow> 'dt sets \<Rightarrow> 'dt sets" where
  "after_scrape dd hv arts ss =
     (let ss1 = ss\<lparr>members := (members ss)(articleset hv := members ss (articleset hv) @ arts)\<rparr>
      in if dd then ss1\<lparr>dedup_runs := dedup_runs ss1 @ [(articleset hv, options_date hv, options_date hv)]\<rparr>
         else ss1)"

fun scrape_loop ::
  "('u, 'p, 'dt) scrape_impl \<Rightarrow> bool \<Rightarrow> ('u, 'p, 'dt) harvester list \<Rightarrow> ('u, 'p) cstate \<Rightarrow> 'dt sets \<Rightarrow>
     oid set \<Rightarrow> nat set \<Rightarrow> (('u, 'p) cstate \<times> 'dt sets \<times> oid set \<times> nat set) option" where
  "scrape_loop sc dd [] st ss acc used = Some (st, ss, acc, used)"
| "scrape_loop sc dd (hv # hvs) st ss acc used =
     (case sc hv st of
        None \<Rightarrow> None
      | Some (st1, Inl e) \<Rightarrow> scrape_loop sc dd hvs st1 ss acc used
      | Some (st1, Inr arts) \<Rightarrow>
          scrape_loop sc dd hvs st1 (after_scrape dd hv arts ss) (acc \<union> set arts) (insert (articleset hv) used))"

definition scrape ::
  "('u, 'p, 'dt) scrape_impl \<Rightarrow> bool \<Rightarrow> ('u, 'p, 'dt) harvester scrapers \<Rightarrow> ('u, 'p) cstate \<Rightarrow> 'dt sets \<Rightarrow>
     (('u, 'p) cstate \<times> 'dt sets \<times> oid set) option" where
  "scrape sc dd hs st ss =
     (case scrape_loop sc dd (scraper_list hs) st ss {} {} of
        None \<Rightarrow> None
      | Some (st', ss', acc, used) \<Rightarrow> Some (st', ss'\<lparr>index_dirty := index_dirty ss' \<union> used\<rparr>, acc))"

section \<open>The test scrapers\<close>

text \<open>
  The payload of the test articles: an \<open>Article\<close> with the headline printed from its
  unit, or an \<open>_ErrorArticle\<close>, whose \<open>save()\<close> runs invalid SQL.
\<close>

datatype tpay = Headline nat | ErrorArticle

text \<open>\<open>_TestScraper(n)\<close>: units \<open>range(n)\<close>, one new article per unit.\<close>

definition test_scraper :: "nat \<Rightarrow> nat \<Rightarrow> (nat, tpay, unit) harvester" where
  "test_scraper set_id n =
     \<lparr>get_units = ([0..<n], None),
      scrape_unit = (\<lambda>u. ([\<lparr>s_parent = SNone, s_payload = Headline u\<rparr>], None)),
      options_date = None, articleset = set_id\<rparr>"

text \<open>\<open>_ErrorScraper\<close>: units \<open>[1, 2]\<close>; unit 1 yields an \<open>_ErrorArticle\<close>.\<close>

definition error_scraper :: "nat \<Rightarrow> (nat, tpay, unit) harvester" where
  "error_scraper set_id =
     \<lparr>get_units = ([1, 2], None),
      scrape_unit = (\<lambda>u. if u = 1 then ([\<lparr>s_parent = SNoAttr, s_payload = ErrorArticle\<rparr>], None)
                         else ([\<lparr>s_parent = SNone, s_payload = Headline u\<rparr>], None)),
      options_date = None, articleset = set_id\<rparr>"

text \<open>The test database: it rejects the statement of an \<open>_ErrorArticle\<close>.\<close>

definition test_chk :: "tpay chk" where
  "test_chk d r = (if row_data r = ErrorArticle then Some OtherDatabase else None)"

section \<open>Reference and example inputs\<close>

text \<open>
  \<open>scrape_each\<close> runs the controller's \<open>_scrape\<close> on each harvester in turn and
  collects the outcomes, without any of \<open>Controller.scrape\<close>'s bookkeeping.
\<close>

fun scrape_each :: "('u, 'p, 'dt) scrape_impl \<Rightarrow> ('u, 'p, 'dt) harvester list \<Rightarrow> ('u, 'p) cstate \<Rightarrow>
    (('u, 'p) cstate \<times> (exc + oid list) list) option" where
  "scrape_each sc [] st = Some (st, [])"
| "scrape_each sc (hv # hvs) st =
     (case sc hv st of
        None \<Rightarrow> None
      | Some (st1, r) \<Rightarrow> map_option (\<lambda>(st2, rs). (st2, r # rs)) (scrape_each sc hvs st1))"

text \<open>
  Example inputs: an empty controller state and empty article sets, a harvester whose
  discovery fails, one whose second unit fails to parse after the first unit was saved,
  and the \<open>RobustController\<close> state after a failed discovery.
\<close>

definition ex_state :: "(nat, tpay) cstate" where
  "ex_state =
     \<lparr>c_heap = (\<lambda>_. \<lparr>pk = None, parent = PNone, payload = Headline 0\<rparr>),
      c_db = \<lparr>log = [], next_pk = 1, aborted = False\<rparr>, c_free = 100, errors = []\<rparr>"

definition ex_sets :: "unit sets" where
  "ex_sets = \<lparr>members = (\<lambda>_. []), dedup_runs = [], index_dirty = {}\<rparr>"

definition down_scraper :: "nat \<Rightarrow> (nat, tpay, unit) harvester" where
  "down_scraper set_id =
     \<lparr>get_units = ([], Some (Exception ''connection refused'')),
      scrape_unit = (\<lambda>u. ([], None)), options_date = None, articleset = set_id\<rparr>"

definition abort_scraper :: "nat \<Rightarrow> (nat, tpay, unit) harvester" where
  "abort_scraper set_id =
     \<lparr>get_units = ([0, 1], None),
      scrape_unit = (\<lambda>u. if u = 0 then ([\<lparr>s_parent = SNone, s_payload = Headline 0\<rparr>], None)
                         else ([], Some (ParseError ''bad page''))),
      options_date = None, articleset = set_id\<rparr>"

section \<open>Lemmas\<close>



lemma harvest_frame:
  "harvest hv u st = (st1, r) \<Longrightarrow> c_db st1 = c_db st \<and> errors st1 = errors st"
  by (auto simp: harvest_def split: prod.splits)

lemma sio_st_frame:
  "sio_st n chk objs st = Some (st1, g) \<Longrightarrow> errors st1 = errors st \<and> c_free st1 = c_free st"
  by (auto simp: sio_st_def)

lemma sio_st_rows:
  "sio_st n chk objs st = Some (st1, ys, e) \<Longrightarrow>
     \<exists>rows. log (c_db st1) = log (c_db st) @ rows \<and> length rows = length ys"
proof -
  assume a: "sio_st n chk objs st = Some (st1, ys, e)"
  then obtain h' d' where run: "save_in_order n chk objs (c_heap st, c_db st) = Some ((h', d'), ys, e)"
    and st1: "c_db st1 = d'"
    by (auto simp: sio_st_def split: prod.splits)
  from sio_loop_log[of n chk objs "roots (c_heap st) objs" "c_heap st" "c_db st" h' d' ys e] run
  obtain rows where "log d' = log (c_db st) @ rows" "map (\<lambda>r. Some (row_pk r)) rows = map (\<lambda>x. pk (h' x)) ys"
    by (auto simp: save_in_order_def)
  then show ?thesis using st1 by (metis length_map)
qed

text \<open>
  A run of \<open>_scrape\<close>'s unit loop that returns, by its first unit: the harvest
  raised, or its articles were saved, or saving them raised.
\<close>

lemma robust_units_Cons_cases [consumes 1, case_names raised saved failed]:
  assumes "robust_units n chk hv ((i, u) # ius) st res = Some (st', res')"
  obtains (raised) st1 e where "harvest hv u st = (st1, Inl e)"
      "robust_units n chk hv ius (st1\<lparr>errors := errors st1 @ [ScrapeError (Some i) (Some u) e]\<rparr>) res = Some (st', res')"
  | (saved) st1 objs st2 ys where "harvest hv u st = (st1, Inr objs)" "sio_st n chk objs st1 = Some (st2, ys, None)"
      "robust_units n chk hv ius st2 (res @ ys) = Some (st', res')"
  | (failed) st1 objs st2 ys ex where "harvest hv u st = (st1, Inr objs)" "sio_st n chk objs st1 = Some (st2, ys, Some ex)"
      "robust_units n chk hv ius (st2\<lparr>errors := errors st2 @ [ScrapeError (Some i) (Some u) ex]\<rparr>) (res @ ys) = Some (st', res')"
proof -
  obtain st1 r where h: "harvest hv u st = (st1, r)" by fastforce
  show ?thesis
  proof (cases r)
    case (Inl e)
    with assms h show ?thesis using that(1) by simp
  next
    case (Inr objs)
    then obtain st2 ys ex where sv: "sio_st n chk objs st1 = Some (st2, ys, ex)"
      using assms h by (auto split: option.splits)
    with assms h Inr show ?thesis using that(2,3) by (cases ex) simp_all
  qed
qed

lemma robust_units_errors:
  "robust_units n chk hv ius st res = Some (st', res') \<Longrightarrow> prefix (errors st) (errors st')"
proof (induction ius arbitrary: st res)
  case Nil
  then show ?case by simp
next
  case (Cons iu ius)
  obtain i u where iu: "iu = (i, u)" by fastforce
  from Cons.prems[unfolded iu] show ?case
  proof (cases rule: robust_units_Cons_cases)
    case (raised st1 e)
    from Cons.IH[OF raised(2)] harvest_frame[OF raised(1)] show ?thesis by (auto dest: append_prefixD)
  next
    case (saved st1 objs st2 ys)
    from Cons.IH[OF saved(3)] harvest_frame[OF saved(1)] sio_st_frame[OF saved(2)] show ?thesis by simp
  next
    case (failed st1 objs st2 ys ex)
    from Cons.IH[OF failed(3)] harvest_frame[OF failed(1)] sio_st_frame[OF failed(2)] show ?thesis
      by (auto dest: append_prefixD)
  qed
qed

lemmas run_simps = harvest_def sio_st_def save_in_order_def roots_def save_def model_save_def
  db_write_def savepoint_def savepoint_rollback_def Let_def

lemma test_unit:
  assumes "\<not> aborted (c_db st)"
  shows "\<exists>st1 st2. harvest (test_scraper s n) u st = (st1, Inr [c_free st]) \<and>
           sio_st (Suc (Suc k)) test_chk [c_free st] st1 = Some (st2, [c_free st], None) \<and>
           c_free st2 = Suc (c_free st) \<and> \<not> aborted (c_db st2) \<and>
           length (log (c_db st2)) = Suc (length (log (c_db st)))"
  using assms by (simp add: run_simps test_scraper_def test_chk_def)

lemma test_units:
  "\<not> aborted (c_db st) \<Longrightarrow>
     \<exists>st'. simple_units (Suc (Suc k)) test_chk (test_scraper s n) us st = Some (st', Inr [c_free st..<c_free st + length us]) \<and>
       \<not> aborted (c_db st') \<and> c_free st' = c_free st + length us \<and>
       length (log (c_db st')) = length (log (c_db st)) + length us"
proof (induction us arbitrary: st)
  case Nil
  then show ?case by simp
next
  case (Cons u us)
  from test_unit[OF Cons.prems, of s n u k] obtain st1 st2 where
    h: "harvest (test_scraper s n) u st = (st1, Inr [c_free st])" and
    sv: "sio_st (Suc (Suc k)) test_chk [c_free st] st1 = Some (st2, [c_free st], None)" and
    st2: "c_free st2 = Suc (c_free st)" "\<not> aborted (c_db st2)" "length (log (c_db st2)) = Suc (length (log (c_db st)))"
    by blast
  from Cons.IH[OF st2(2)] obtain st' where
    r: "simple_units (Suc (Suc k)) test_chk (test_scraper s n) us st2 = Some (st', Inr [c_free st2..<c_free st2 + length us])"
    and st': "\<not> aborted (c_db st')" "c_free st' = c_free st2 + length us"
      "length (log (c_db st')) = length (log (c_db st2)) + length us"
    by blast
  have "[c_free st] @ [Suc (c_free st)..<Suc (c_free st) + length us] = [c_free st..<c_free st + length (u # us)]"
    by (simp add: upt_rec)
  with h sv r st2 st' show ?case by simp
qed

lemma error_scraper_run:
  assumes "\<not> aborted (c_db st)"
  shows "\<exists>st'. robust_scrape (Suc (Suc k)) test_chk (error_scraper s) st = Some (st', Inr [Suc (c_free st)]) \<and>
           length (log (c_db st')) = Suc (length (log (c_db st))) \<and> errors st' = errors st"
  using assms by (simp add: run_simps error_scraper_def test_chk_def robust_scrape_def enumerate_eq_zip)



lemma robust_units_rows:
  "robust_units n chk hv ius st res = Some (st', res') \<Longrightarrow>
     \<exists>rows. log (c_db st') = log (c_db st) @ rows \<and> length res + length rows = length res'"
proof (induction ius arbitrary: st res)
  case Nil
  then show ?case by simp
next
  case (Cons iu ius)
  obtain i u where iu: "iu = (i, u)" by fastforce
  from Cons.prems[unfolded iu] show ?case
  proof (cases rule: robust_units_Cons_cases)
    case (raised st1 e)
    from Cons.IH[OF raised(2)] harvest_frame[OF raised(1)] show ?thesis by simp
  next
    case (saved st1 objs st2 ys)
    from sio_st_rows[OF saved(2)] obtain rows1 where
      r1: "log (c_db st2) = log (c_db st1) @ rows1" "length rows1 = length ys" by blast
    from Cons.IH[OF saved(3)] obtain rows where
      "log (c_db st') = log (c_db st2) @ rows" "length (res @ ys) + length rows = length res'" by blast
    with r1 harvest_frame[OF saved(1)] show ?thesis by (intro exI[of _ "rows1 @ rows"]) simp
  next
    case (failed st1 objs st2 ys ex)
    from sio_st_rows[OF failed(2)] obtain rows1 where
      r1: "log (c_db st2) = log (c_db st1) @ rows1" "length rows1 = length ys" by blast
    from Cons.IH[OF failed(3)] obtain rows where
      "log (c_db st') = log (c_db st2) @ rows" "length (res @ ys) + length rows = length res'" by auto
    with r1 harvest_frame[OF failed(1)] show ?thesis by (intro exI[of _ "rows1 @ rows"]) simp
  qed
qed

lemma robust_scrape_errors:
  "robust_scrape n chk hv st = Some (st', r) \<Longrightarrow> prefix (errors st) (errors st')"
  by (auto simp: robust_scrape_def split: prod.splits option.splits dest: robust_units_errors)

lemma scrape_loop_errors:
  assumes "\<And>hv st st1 r. sc hv st = Some (st1, r) \<Longrightarrow> prefix (errors st) (errors st1)"
  shows "scrape_loop sc dd hvs st ss acc used = Some (st', ss', acc', used') \<Longrightarrow> prefix (errors st) (errors st')"
proof (induction hvs arbitrary: st ss acc used)
  case Nil
  then show ?case by simp
next
  case (Cons hv hvs)
  then obtain st1 r where s: "sc hv st = Some (st1, r)" by (auto split: option.splits)
  from assms[OF s] Cons.prems Cons.IH s show ?case
    by (cases r) (auto intro: prefix_order.trans)
qed

lemma scrape_loop_each:
  "scrape_loop sc dd hvs st ss acc used = Some (st', ss', acc', used') \<Longrightarrow>
     \<exists>rs. scrape_each sc hvs st = Some (st', rs) \<and>
       acc' = acc \<union> (\<Union>arts \<in> {arts. Inr arts \<in> set rs}. set arts) \<and>
       used' = used \<union> {articleset hv | hv arts. (hv, Inr arts) \<in> set (zip hvs rs)}"
proof (induction hvs arbitrary: st ss acc used)
  case Nil
  then show ?case by simp
next
  case (Cons hv hvs)
  then obtain st1 r where s: "sc hv st = Some (st1, r)" by (auto split: option.splits)
  show ?case
  proof (cases r)
    case (Inl e)
    with Cons.prems s have "scrape_loop sc dd hvs st1 ss acc used = Some (st', ss', acc', used')" by simp
    from Cons.IH[OF this] obtain rs where
      "scrape_each sc hvs st1 = Some (st', rs)"
      "acc' = acc \<union> (\<Union>arts \<in> {arts. Inr arts \<in> set rs}. set arts)"
      "used' = used \<union> {articleset hv | hv arts. (hv, Inr arts) \<in> set (zip hvs rs)}" by blast
    with s Inl show ?thesis by (intro exI[of _ "r # rs"]) auto
  next
    case (Inr arts)
    with Cons.prems s have "scrape_loop sc dd hvs st1 (after_scrape dd hv arts ss) (acc \<union> set arts) (insert (articleset hv) used) = Some (st', ss', acc', used')" by simp
    from Cons.IH[OF this] obtain rs where
      "scrape_each sc hvs st1 = Some (st', rs)"
      "acc' = acc \<union> set arts \<union> (\<Union>arts \<in> {arts. Inr arts \<in> set rs}. set arts)"
      "used' = insert (articleset hv) used \<union> {articleset hv | hv arts. (hv, Inr arts) \<in> set (zip hvs rs)}" by blast
    with s Inr show ?thesis by (intro exI[of _ "r # rs"]) auto
  qed
qed

lemma scrape_loop_dirty:
  "scrape_loop sc dd hvs st ss acc used = Some (st', ss', acc', used') \<Longrightarrow> index_dirty ss' = index_dirty ss"
proof (induction hvs arbitrary: st ss acc used)
  case Nil
  then show ?case by simp
next
  case (Cons hv hvs)
  then obtain st1 r where s: "sc hv st = Some (st1, r)" by (auto split: option.splits)
  with Cons show ?case
    by (cases r) (auto simp: after_scrape_def Let_def)
qed

section \<open>Properties of the controllers\<close>

text \<open>
  C9. \<open>test_scraper\<close> (\<open>TestController.test_scraper\<close> and \<open>test_set\<close>): a
  \<open>SimpleController\<close> run of \<open>_TestScraper(n)\<close> on a usable transaction writes
  \<open>n\<close> rows, returns the \<open>n\<close> new articles, adds exactly them to the scraper's
  article set and flags that set for reindexing, for every \<open>n\<close>.
\<close>

theorem test_scraper_saves_all:
  assumes "\<not> aborted (c_db st)"
  shows "\<exists>st' ss'. scrape (simple_scrape (Suc (Suc k)) test_chk) False (One (test_scraper s n)) st ss =
             Some (st', ss', set [c_free st..<c_free st + n]) \<and>
           length (log (c_db st')) = length (log (c_db st)) + n \<and>
           members ss' s = members ss s @ [c_free st..<c_free st + n] \<and>
           index_dirty ss' = insert s (index_dirty ss)"
proof -
  from test_units[OF assms, of k s n "[0..<n]"] obtain st' where
    r: "simple_units (Suc (Suc k)) test_chk (test_scraper s n) [0..<n] st = Some (st', Inr [c_free st..<c_free st + n])"
    and l: "length (log (c_db st')) = length (log (c_db st)) + n" by auto
  have "get_units (test_scraper s n) = ([0..<n], None)" by (simp add: test_scraper_def)
  with r l show ?thesis
    by (simp add: scrape_def simple_scrape_def after_scrape_def test_scraper_def)
qed

theorem test_scraper_saves_all_witness:
  "\<not> aborted (c_db ex_state) \<and>
   (\<exists>st' ss'. scrape (simple_scrape 2 test_chk) False (One (test_scraper 7 3)) ex_state ex_sets =
       Some (st', ss', set [100..<103]) \<and> length (log (c_db st')) = 3 \<and>
     members ss' 7 = [100..<103] \<and> index_dirty ss' = {7})"
proof -
  have a: "\<not> aborted (c_db ex_state)" by (simp add: ex_state_def)
  from test_scraper_saves_all[OF a, of 0 7 3 ex_sets] a show ?thesis
    by (simp add: ex_state_def ex_sets_def numeral_eq_Suc)
qed

text \<open>
  \<open>test_rollback\<close>: a \<open>RobustController\<close> run of \<open>_ErrorScraper\<close>, whose first
  unit yields an article that the database rejects, still saves and returns the
  article of the second unit: one row, one member of the set, no error recorded.
\<close>

lemma error_scraper_rollback:
  assumes "\<not> aborted (c_db st)"
  shows "\<exists>st' ss'. scrape (robust_scrape (Suc (Suc k)) test_chk) False (One (error_scraper s)) st ss =
             Some (st', ss', {Suc (c_free st)}) \<and>
           length (log (c_db st')) = Suc (length (log (c_db st))) \<and>
           members ss' s = members ss s @ [Suc (c_free st)] \<and> errors st' = errors st"
proof -
  from error_scraper_run[OF assms, of k s] obtain st' where
    r: "robust_scrape (Suc (Suc k)) test_chk (error_scraper s) st = Some (st', Inr [Suc (c_free st)])"
    and l: "length (log (c_db st')) = Suc (length (log (c_db st)))" "errors st' = errors st" by blast
  from r l show ?thesis
    by (simp add: scrape_def after_scrape_def error_scraper_def)
qed

lemma error_scraper_rollback_example:
  "\<not> aborted (c_db ex_state) \<and>
   (\<exists>st' ss'. scrape (robust_scrape 2 test_chk) False (One (error_scraper 7)) ex_state ex_sets =
       Some (st', ss', {101}) \<and> length (log (c_db st')) = 1 \<and> members ss' 7 = [101] \<and> errors st' = [])"
proof -
  have a: "\<not> aborted (c_db ex_state)" by (simp add: ex_state_def)
  from error_scraper_rollback[OF a, of 0 7 ex_sets] a show ?thesis
    by (simp add: ex_state_def ex_sets_def numeral_eq_Suc)
qed

text \<open>
  C11. A \<open>RobustController\<close> discovery failure does not reach the caller of
  \<open>scrape\<close>: it is recorded as \<open>ScrapeError(None, None, e)\<close> and the run goes on
  exactly as if that harvester had not been given.  (The specification says the error
  is re-raised to the caller; \<open>_scrape\<close> re-raises it, but \<open>Controller.scrape\<close>
  catches every exception of \<open>_scrape\<close>.)
\<close>

theorem scrape_swallows_discovery_error:
  assumes "get_units hv = (us, Some e)"
  shows "scrape (robust_scrape n chk) dd (Many (hv # hvs)) st ss =
         scrape (robust_scrape n chk) dd (Many hvs) (st\<lparr>errors := errors st @ [ScrapeError None None e]\<rparr>) ss"
  using assms by (simp add: scrape_def robust_scrape_def)

theorem scrape_swallows_discovery_error_witness:
  "get_units (down_scraper 3) = ([], Some (Exception ''connection refused'')) \<and>
   scrape (robust_scrape 2 test_chk) False (Many [down_scraper 3, test_scraper 7 1]) ex_state ex_sets =
   scrape (robust_scrape 2 test_chk) False (Many [test_scraper 7 1])
     (ex_state\<lparr>errors := [ScrapeError None None (Exception ''connection refused'')]\<rparr>) ex_sets"
proof -
  have g: "get_units (down_scraper 3) = ([], Some (Exception ''connection refused''))"
    by (simp add: down_scraper_def)
  from scrape_swallows_discovery_error[OF g, of 2 test_chk False "[test_scraper 7 1]" ex_state ex_sets] g
  show ?thesis by (simp add: ex_state_def)
qed

text \<open>
  C12. \<open>RobustController.errors\<close> is append-only: a whole \<open>scrape\<close> call only adds
  entries, after those of earlier calls (the list is never reset between calls, while
  the specification scopes it to one invocation).
\<close>

theorem scrape_errors_append_only:
  assumes "scrape (robust_scrape n chk) dd hs st ss = Some (st', ss', R)"
  shows "prefix (errors st) (errors st')"
proof -
  from assms obtain ss0 acc used where
    "scrape_loop (robust_scrape n chk) dd (scraper_list hs) st ss {} {} = Some (st', ss0, acc, used)"
    by (auto simp: scrape_def split: option.splits)
  from scrape_loop_errors[OF robust_scrape_errors this] show ?thesis .
qed

theorem scrape_errors_append_only_witness:
  "scrape (robust_scrape 2 test_chk) False (Many [down_scraper 3]) ex_state ex_sets =
     Some (ex_state\<lparr>errors := [ScrapeError None None (Exception ''connection refused'')]\<rparr>,
           ex_sets, {}) \<and>
   prefix (errors ex_state) [ScrapeError None None (Exception ''connection refused'')]"
proof -
  have r: "scrape (robust_scrape 2 test_chk) False (Many [down_scraper 3]) ex_state ex_sets =
     Some (ex_state\<lparr>errors := [ScrapeError None None (Exception ''connection refused'')]\<rparr>, ex_sets, {})"
    by (simp add: scrape_def robust_scrape_def down_scraper_def ex_state_def ex_sets_def)
  from scrape_errors_append_only[OF r] r show ?thesis by simp
qed

text \<open>
  C13. Zero output is fatal: when discovery succeeds, \<open>RobustController._scrape\<close>
  raises the no-results exception exactly when the run added no row to the
  transaction (every unit failed, yielded nothing, or had every save rejected), and
  otherwise returns a non-empty list.
\<close>

theorem robust_scrape_zero_output:
  assumes "snd (get_units hv) = None" and "robust_scrape n chk hv st = Some (st', r)"
  shows "(r = Inl no_results \<longleftrightarrow> log (c_db st') = log (c_db st)) \<and>
         (r = Inl no_results \<or> (\<exists>res. r = Inr res \<and> res \<noteq> []))"
proof -
  from assms obtain us where g: "get_units hv = (us, None)" by (cases "get_units hv") auto
  with assms(2) obtain res where
    ru: "robust_units n chk hv (enumerate 0 us) st [] = Some (st', res)" and
    r: "r = (if res = [] then Inl no_results else Inr res)"
    by (auto simp: robust_scrape_def split: option.splits)
  from robust_units_rows[OF ru] obtain rows where
    "log (c_db st') = log (c_db st) @ rows" "length rows = length res" by auto
  with r show ?thesis by auto
qed

theorem robust_scrape_zero_output_witness:
  "snd (get_units (error_scraper 7)) = None \<and>
   (\<exists>st'. robust_scrape 2 test_chk (error_scraper 7) ex_state = Some (st', Inr [101]) \<and>
      log (c_db st') \<noteq> log (c_db ex_state))"
proof -
  have g: "snd (get_units (error_scraper 7)) = None" by (simp add: error_scraper_def)
  have a: "\<not> aborted (c_db ex_state)" by (simp add: ex_state_def)
  from error_scraper_run[OF a, of 0 7] obtain st' where
    r: "robust_scrape 2 test_chk (error_scraper 7) ex_state = Some (st', Inr [101])"
    by (auto simp: ex_state_def numeral_eq_Suc)
  from robust_scrape_zero_output[OF g r] have "log (c_db st') \<noteq> log (c_db ex_state)"
    by (simp add: no_results_def)
  with g r show ?thesis by blast
qed

text \<open>
  C14. \<open>Controller.scrape\<close> refines running each harvester's \<open>_scrape\<close> in turn: it
  returns the union of the articles of the harvesters whose \<open>_scrape\<close> returned, and
  flags exactly their article sets for reindexing; a harvester whose \<open>_scrape\<close>
  raised contributes nothing.
\<close>

theorem scrape_collects:
  assumes "scrape sc dd hs st ss = Some (st', ss', R)"
  shows "\<exists>rs. scrape_each sc (scraper_list hs) st = Some (st', rs) \<and>
           R = (\<Union>arts \<in> {arts. Inr arts \<in> set rs}. set arts) \<and>
           index_dirty ss' = index_dirty ss \<union>
             {articleset hv | hv arts. (hv, Inr arts) \<in> set (zip (scraper_list hs) rs)}"
proof -
  from assms obtain ss0 used where
    l: "scrape_loop sc dd (scraper_list hs) st ss {} {} = Some (st', ss0, R, used)" and
    ss': "ss' = ss0\<lparr>index_dirty := index_dirty ss0 \<union> used\<rparr>"
    by (auto simp: scrape_def split: option.splits)
  from scrape_loop_each[OF l] scrape_loop_dirty[OF l] ss' show ?thesis by auto
qed

theorem scrape_collects_witness:
  "\<exists>st' ss' R. scrape (robust_scrape 2 test_chk) False (Many [down_scraper 3, test_scraper 7 1]) ex_state ex_sets =
     Some (st', ss', R) \<and>
   (\<exists>rs. scrape_each (robust_scrape 2 test_chk) [down_scraper 3, test_scraper 7 1] ex_state = Some (st', rs) \<and>
      R = (\<Union>arts \<in> {arts. Inr arts \<in> set rs}. set arts) \<and>
      index_dirty ss' = index_dirty ex_sets \<union>
        {articleset hv | hv arts. (hv, Inr arts) \<in> set (zip [down_scraper 3, test_scraper 7 1] rs)})"
proof -
  have "map_option (\<lambda>(st', ss', R). R)
          (scrape (robust_scrape 2 test_chk) False (Many [down_scraper 3, test_scraper 7 1]) ex_state ex_sets) = Some {100}"
    by (simp add: scrape_def robust_scrape_def down_scraper_def test_scraper_def ex_state_def ex_sets_def
        run_simps test_chk_def enumerate_eq_zip after_scrape_def numeral_2_eq_2)
  then obtain st' ss' R where
    r: "scrape (robust_scrape 2 test_chk) False (Many [down_scraper 3, test_scraper 7 1]) ex_state ex_sets = Some (st', ss', R)"
    by (auto split: option.splits)
  from scrape_collects[OF r] r show ?thesis by auto
qed

text \<open>
  A \<open>SimpleController\<close> harvester aborted by a parse error in its second unit
  returns nothing and attaches nothing to its set, yet the article of its first unit
  stays written in the transaction, attached to no set.
\<close>

lemma simple_abort_keeps_rows:
  "\<exists>st' ss'. scrape (simple_scrape 2 test_chk) False (One (abort_scraper 7)) ex_state ex_sets = Some (st', ss', {}) \<and>
     length (log (c_db st')) = 1 \<and> members ss' 7 = [] \<and> index_dirty ss' = {}"
  by (simp add: scrape_def simple_scrape_def abort_scraper_def ex_state_def ex_sets_def run_simps test_chk_def numeral_2_eq_2)

end
