(* ===== verification/Pooled.thy ===== *)
theory Pooled
  imports Controllers
begin

text \<open>
  \<open>ThreadedController\<close> (\<open>src/amcat/scraping/controller.py\<close>, lines 172--199), the
  pooled controller of spec section 4.4, as two step relations: \<open>wstep\<close>, a step
  of one worker of \<open>_scrape_to_queue\<close>, and \<open>pstep\<close>, a step of the whole pool
  (a worker, the main thread or the committer).  \<open>scrape\<close> starts a
  \<open>QueueProcessorThread\<close> (the committer) that applies \<open>self.save\<close> to every item put
  on its input queue and appends the result to \<open>result\<close>; \<open>_scrape_to_queue\<close> runs
  \<open>multithread.distribute_tasks\<close> over the units with \<open>nthreads\<close> workers and
  \<open>retry_exceptions=3\<close>, each worker putting the articles of a unit on the queue;
  then \<open>done\<close> is set and the queue joined.  \<open>multithread\<close> is not under \<open>src/\<close>:
  the workers, retries, queue and committer follow spec sections 4.4 and 5.  Workers
  interleave at every step; a harvester may answer differently on each attempt
  (\<open>att u k\<close> is attempt \<open>k\<close> at unit \<open>u\<close>).
\<close>

section \<open>State\<close>

text \<open>
  A worker is idle, running attempt \<open>k\<close> at unit \<open>u\<close> (index \<open>i\<close>), or putting the
  articles of unit \<open>i\<close> on the results queue one by one.
\<close>

datatype 'u wstate = Idle | Working nat 'u nat | Emitting nat "oid list"

text \<open>
  The pool: the work queue, the workers, the results queue (the committer's input
  queue) and its \<open>done\<close> flag, the heap and transaction (as in \<open>Saver\<close>), the next
  free object, the committer's \<open>result\<close> list, the units given up, which unit created
  each object, and the attempts made at each unit.
\<close>

record ('u, 'p) pstate =
  p_units :: "(nat \<times> 'u) list"
  p_workers :: "'u wstate list"
  p_results :: "oid list"
  p_done :: bool
  p_heap :: "'p heap"
  p_db :: "'p db"
  p_free :: oid
  p_out :: "oid list"
  p_failed :: "(nat \<times> 'u) list"
  p_owner :: "oid \<Rightarrow> nat option"
  p_tries :: "nat \<Rightarrow> nat"

text \<open>
  \<open>ThreadedController.scrape(scraper)\<close> starts from the units of the harvester
  (numbered), \<open>nthreads\<close> idle workers and an empty queue.
\<close>

definition pinit :: "nat \<Rightarrow> 'u list \<Rightarrow> 'p heap \<Rightarrow> 'p db \<Rightarrow> oid \<Rightarrow> ('u, 'p) pstate" where
  "pinit nthreads us h d free =
     \<lparr>p_units = enumerate 0 us, p_workers = replicate nthreads Idle, p_results = [], p_done = False,
      p_heap = h, p_db = d, p_free = free, p_out = [], p_failed = [], p_owner = (\<lambda>_. None),
      p_tries = (\<lambda>_. 0)\<rparr>"

text \<open>\<open>qpt.input_queue.join()\<close> returns: the flag is set and the queue is drained.\<close>

definition pfinal :: "('u, 'p) pstate \<Rightarrow> bool" where
  "pfinal s = (p_done s \<and> p_results s = [])"

section \<open>Steps\<close>

text \<open>
  One step of one worker thread of \<open>distribute_tasks\<close>, as run by
  \<open>_scrape_to_queue\<close>.  \<open>take\<close>: an idle worker takes the next unit.
  \<open>success\<close>: the attempt returns the unit's articles, created at fresh addresses.
  \<open>retry\<close> and \<open>give_up\<close>: the attempt raises and is retried while the budget \<open>R\<close>
  allows, else the unit is logged as failed.  \<open>emit\<close> and \<open>finish\<close>: the worker
  puts its articles on the queue in order (\<open>add_to_queue_action\<close>).  \<open>p_owner\<close> and
  \<open>p_tries\<close> are ghost state: the unit that created each object and the attempts
  made at each unit.
\<close>

inductive wstep :: "nat \<Rightarrow> ('u \<Rightarrow> nat \<Rightarrow> 'p art_spec gen) \<Rightarrow> ('u, 'p) pstate \<Rightarrow> ('u, 'p) pstate \<Rightarrow> bool"
  for R :: nat and att :: "'u \<Rightarrow> nat \<Rightarrow> 'p art_spec gen" where
  take: "w < length (p_workers s) \<Longrightarrow> p_workers s ! w = Idle \<Longrightarrow> p_units s = (i, u) # us \<Longrightarrow>
     wstep R att s (s\<lparr>p_units := us, p_workers := (p_workers s)[w := Working i u 1]\<rparr>)"
| success: "w < length (p_workers s) \<Longrightarrow> p_workers s ! w = Working i u k \<Longrightarrow> att u k = (specs, None) \<Longrightarrow>
     alloc (p_heap s) (p_free s) 0 specs = (h', objs) \<Longrightarrow>
     wstep R att s (s\<lparr>p_workers := (p_workers s)[w := Emitting i objs], p_heap := h',
       p_free := p_free s + length specs,
       p_owner := (\<lambda>x. if x \<in> set objs then Some i else p_owner s x), p_tries := (p_tries s)(i := k)\<rparr>)"
| retry: "w < length (p_workers s) \<Longrightarrow> p_workers s ! w = Working i u k \<Longrightarrow> att u k = (specs, Some e) \<Longrightarrow>
     k < R \<Longrightarrow>
     wstep R att s (s\<lparr>p_workers := (p_workers s)[w := Working i u (Suc k)], p_tries := (p_tries s)(i := k)\<rparr>)"
| give_up: "w < length (p_workers s) \<Longrightarrow> p_workers s ! w = Working i u k \<Longrightarrow> att u k = (specs, Some e) \<Longrightarrow>
     R \<le> k \<Longrightarrow>
     wstep R att s (s\<lparr>p_workers := (p_workers s)[w := Idle], p_failed := p_failed s @ [(i, u)],
       p_tries := (p_tries s)(i := k)\<rparr>)"
| emit: "w < length (p_workers s) \<Longrightarrow> p_workers s ! w = Emitting i (x # xs) \<Longrightarrow>
     wstep R att s (s\<lparr>p_results := p_results s @ [x], p_workers := (p_workers s)[w := Emitting i xs]\<rparr>)"
| finish: "w < length (p_workers s) \<Longrightarrow> p_workers s ! w = Emitting i [] \<Longrightarrow>
     wstep R att s (s\<lparr>p_workers := (p_workers s)[w := Idle]\<rparr>)"

text \<open>
  One step of the pool: a worker step, or the main thread setting \<open>done\<close> once
  \<open>distribute_tasks\<close> has returned (every unit taken, every worker idle), or a step of
  the committer: it saves the head of the queue with \<open>Controller.save\<close> and appends
  the saved article to \<open>result\<close>; a save that was rolled back (\<open>save\<close> returns
  \<open>None\<close>) or raised adds nothing, since the result holds the records actually
  persisted (spec section 4.4).
\<close>

inductive pstep :: "nat \<Rightarrow> 'p chk \<Rightarrow> ('u \<Rightarrow> nat \<Rightarrow> 'p art_spec gen) \<Rightarrow> ('u, 'p) pstate \<Rightarrow> ('u, 'p) pstate \<Rightarrow> bool"
  for R :: nat and chk :: "'p chk" and att :: "'u \<Rightarrow> nat \<Rightarrow> 'p art_spec gen" where
  worker: "wstep R att s s' \<Longrightarrow> pstep R chk att s s'"
| all_done: "p_units s = [] \<Longrightarrow> list_all (\<lambda>w. w = Idle) (p_workers s) \<Longrightarrow> \<not> p_done s \<Longrightarrow>
     pstep R chk att s (s\<lparr>p_done := True\<rparr>)"
| commit: "p_results s = x # xs \<Longrightarrow> save chk (p_heap s, p_db s) x = ((h', d'), r) \<Longrightarrow>
     pstep R chk att s (s\<lparr>p_results := xs, p_heap := h', p_db := d',
       p_out := p_out s @ (case r of Inr (Some v) \<Rightarrow> [v] | _ \<Rightarrow> [])\<rparr>)"

section \<open>Termination measure\<close>

text \<open>
  The work left in a state: each queued unit can still take up to \<open>max 1 R\<close> attempts,
  each putting its articles on the queue (\<open>attempt_cost\<close>); a working worker has the
  rest of its attempts left, an emitting one its articles; each queued article is one
  commit, and \<open>done\<close> is one step.
\<close>

definition attempt_cost :: "('u \<Rightarrow> nat \<Rightarrow> 'p art_spec gen) \<Rightarrow> 'u \<Rightarrow> nat \<Rightarrow> nat" where
  "attempt_cost att u k = 2 * length (fst (att u k)) + 2"

definition unit_cost :: "nat \<Rightarrow> ('u \<Rightarrow> nat \<Rightarrow> 'p art_spec gen) \<Rightarrow> 'u \<Rightarrow> nat \<Rightarrow> nat" where
  "unit_cost R att u k = sum_list (map (attempt_cost att u) [k..<Suc (max k R)])"

fun wcost :: "nat \<Rightarrow> ('u \<Rightarrow> nat \<Rightarrow> 'p art_spec gen) \<Rightarrow> 'u wstate \<Rightarrow> nat" where
  "wcost R att Idle = 0"
| "wcost R att (Working i u k) = unit_cost R att u k"
| "wcost R att (Emitting i xs) = 2 * length xs + 1"

definition pmeasure :: "nat \<Rightarrow> ('u \<Rightarrow> nat \<Rightarrow> 'p art_spec gen) \<Rightarrow> ('u, 'p) pstate \<Rightarrow> nat" where
  "pmeasure R att s =
     sum_list (map (\<lambda>(i, u). Suc (unit_cost R att u 1)) (p_units s)) + sum_list (map (wcost R att) (p_workers s)) +
     length (p_results s) + (if p_done s then 0 else 1)"

section \<open>Invariants\<close>

text \<open>
  The unit a worker holds, and the order the committer must keep:
  \<open>unit_before own a b\<close> says that when \<open>a\<close> and \<open>b\<close> come from the same unit,
  \<open>a\<close> was created first.
\<close>

fun windex :: "'u wstate \<Rightarrow> nat option" where
  "windex Idle = None"
| "windex (Working i u k) = Some i"
| "windex (Emitting i xs) = Some i"

definition unit_before :: "(oid \<Rightarrow> nat option) \<Rightarrow> oid \<Rightarrow> oid \<Rightarrow> bool" where
  "unit_before own a b = (own a = own b \<longrightarrow> a < b)"

text \<open>
  The order invariant \<open>pinv\<close>: the committed and queued articles are in unit
  order (\<open>order_ok\<close>); they are below the next free address, and no unit owns an
  address at or above it (\<open>fresh_ok\<close>); an emitting worker holds its unit's articles in
  creation order, all created after the articles of that unit already queued or
  committed (\<open>emit_ok\<close>, \<open>workers_ok\<close>); and a unit index is in the work queue
  or held by one worker, never both and never twice (\<open>idx_list\<close>, \<open>idx_ok\<close>).
\<close>

definition order_ok :: "('u, 'p) pstate \<Rightarrow> bool" where
  "order_ok s = sorted_wrt (unit_before (p_owner s)) (p_out s @ p_results s)"

definition fresh_ok :: "('u, 'p) pstate \<Rightarrow> bool" where
  "fresh_ok s = ((\<forall>y \<in> set (p_out s @ p_results s). y < p_free s) \<and> (\<forall>x. p_free s \<le> x \<longrightarrow> p_owner s x = None))"

definition emit_ok :: "('u, 'p) pstate \<Rightarrow> nat \<Rightarrow> oid list \<Rightarrow> bool" where
  "emit_ok s i xs = (sorted_wrt (<) xs \<and> (\<forall>x \<in> set xs. p_owner s x = Some i \<and> x < p_free s \<and>
      (\<forall>y \<in> set (p_out s @ p_results s). p_owner s y = Some i \<longrightarrow> y < x)))"

definition workers_ok :: "('u, 'p) pstate \<Rightarrow> bool" where
  "workers_ok s = (\<forall>w < length (p_workers s). \<forall>i xs. p_workers s ! w = Emitting i xs \<longrightarrow> emit_ok s i xs)"

definition idx_list :: "(nat \<times> 'u) list \<Rightarrow> nat option list \<Rightarrow> bool" where
  "idx_list us ixs = (distinct (map fst us) \<and>
     (\<forall>w < length ixs. \<forall>i. ixs ! w = Some i \<longrightarrow> i \<notin> fst ` set us \<and>
        (\<forall>w2 < length ixs. w2 \<noteq> w \<longrightarrow> ixs ! w2 \<noteq> Some i)))"

definition idx_ok :: "('u, 'p) pstate \<Rightarrow> bool" where
  "idx_ok s = idx_list (p_units s) (map windex (p_workers s))"

definition pinv :: "('u, 'p) pstate \<Rightarrow> bool" where
  "pinv s = (order_ok s \<and> fresh_ok s \<and> workers_ok s \<and> idx_ok s)"

text \<open>
  The attempt invariant \<open>tinv\<close>: attempts are counted at most \<open>max 1 R\<close> for every
  unit; a working worker is at an attempt between 1 and \<open>max 1 R\<close>, an emitting
  one's unit was attempted (\<open>wok\<close>); every unit is queued, held or attempted
  (\<open>cover\<close>); and once \<open>done\<close> is set, the queue is empty and every worker idle.
\<close>

fun wok :: "nat \<Rightarrow> (nat \<Rightarrow> nat) \<Rightarrow> 'u wstate \<Rightarrow> bool" where
  "wok R t Idle = True"
| "wok R t (Working i u k) = (1 \<le> k \<and> k \<le> max 1 R)"
| "wok R t (Emitting i xs) = (1 \<le> t i)"

definition cover :: "nat \<Rightarrow> ('u, 'p) pstate \<Rightarrow> bool" where
  "cover n s = (\<forall>i < n. i \<in> fst ` set (p_units s) \<or> Some i \<in> set (map windex (p_workers s)) \<or> 1 \<le> p_tries s i)"

definition tinv :: "nat \<Rightarrow> nat \<Rightarrow> ('u, 'p) pstate \<Rightarrow> bool" where
  "tinv R n s = ((\<forall>i. p_tries s i \<le> max 1 R) \<and> list_all (wok R (p_tries s)) (p_workers s) \<and> cover n s \<and>
     (p_done s \<longrightarrow> p_units s = [] \<and> list_all (\<lambda>w. w = Idle) (p_workers s)))"

section \<open>Example\<close>

text \<open>
  A one-worker pool on the single unit \<open>0\<close> whose first attempt raises and whose
  second yields one article; the database is the test database of \<open>Controllers\<close>.
\<close>

definition ex_att :: "nat \<Rightarrow> nat \<Rightarrow> tpay art_spec gen" where
  "ex_att u k = (if k = 1 then ([], Some DatabaseError) else ([\<lparr>s_parent = SNone, s_payload = Headline u\<rparr>], None))"

definition ex_pool :: "(nat, tpay) pstate" where
  "ex_pool = pinit 1 [0] (c_heap ex_state) (c_db ex_state) 100"

section \<open>Termination\<close>

text \<open>The steps of the pool, the worker's and the committer's together.\<close>

lemma pstep_cases [consumes 1, case_names take success retry give_up emit finish all_done commit]:
  assumes "pstep R chk att s s'"
  obtains (take) w i u us where "s' = s\<lparr>p_units := us, p_workers := (p_workers s)[w := Working i u 1]\<rparr>"
      "w < length (p_workers s)" "p_workers s ! w = Idle" "p_units s = (i, u) # us"
  | (success) w i u k specs h' objs where
      "s' = s\<lparr>p_workers := (p_workers s)[w := Emitting i objs], p_heap := h',
       p_free := p_free s + length specs,
       p_owner := (\<lambda>x. if x \<in> set objs then Some i else p_owner s x), p_tries := (p_tries s)(i := k)\<rparr>"
      "w < length (p_workers s)" "p_workers s ! w = Working i u k" "att u k = (specs, None)"
      "alloc (p_heap s) (p_free s) 0 specs = (h', objs)"
  | (retry) w i u k specs e where
      "s' = s\<lparr>p_workers := (p_workers s)[w := Working i u (Suc k)], p_tries := (p_tries s)(i := k)\<rparr>"
      "w < length (p_workers s)" "p_workers s ! w = Working i u k" "att u k = (specs, Some e)" "k < R"
  | (give_up) w i u k specs e where
      "s' = s\<lparr>p_workers := (p_workers s)[w := Idle], p_failed := p_failed s @ [(i, u)],
       p_tries := (p_tries s)(i := k)\<rparr>"
      "w < length (p_workers s)" "p_workers s ! w = Working i u k" "att u k = (specs, Some e)" "R \<le> k"
  | (emit) w i x xs where
      "s' = s\<lparr>p_results := p_results s @ [x], p_workers := (p_workers s)[w := Emitting i xs]\<rparr>"
      "w < length (p_workers s)" "p_workers s ! w = Emitting i (x # xs)"
  | (finish) w i where "s' = s\<lparr>p_workers := (p_workers s)[w := Idle]\<rparr>"
      "w < length (p_workers s)" "p_workers s ! w = Emitting i []"
  | (all_done) "s' = s\<lparr>p_done := True\<rparr>"
      "p_units s = []" "list_all (\<lambda>w. w = Idle) (p_workers s)" "\<not> p_done s"
  | (commit) x xs h' d' r where
      "s' = s\<lparr>p_results := xs, p_heap := h', p_db := d',
       p_out := p_out s @ (case r of Inr (Some v) \<Rightarrow> [v] | _ \<Rightarrow> [])\<rparr>"
      "p_results s = x # xs" "save chk (p_heap s, p_db s) x = ((h', d'), r)"
  using assms
proof cases
  case worker
  then show ?thesis
  proof cases
    case (take w i u us) then show ?thesis by (rule that(1))
  next
    case (success w i u k specs h' objs) then show ?thesis by (rule that(2))
  next
    case (retry w i u k specs e) then show ?thesis by (rule that(3))
  next
    case (give_up w i u k specs e) then show ?thesis by (rule that(4))
  next
    case (emit w i x xs) then show ?thesis by (rule that(5))
  next
    case (finish w i) then show ?thesis by (rule that(6))
  qed
next
  case all_done then show ?thesis by (rule that(7))
next
  case (commit x xs h' d' r) then show ?thesis by (rule that(8))
qed

lemmas pstep_take = pstep.worker[OF wstep.take]
lemmas pstep_success = pstep.worker[OF wstep.success]
lemmas pstep_retry = pstep.worker[OF wstep.retry]
lemmas pstep_give_up = pstep.worker[OF wstep.give_up]
lemmas pstep_emit = pstep.worker[OF wstep.emit]
lemmas pstep_finish = pstep.worker[OF wstep.finish]


lemma alloc_objs: "snd (alloc h base i specs) = [base + i..<base + i + length specs]"
proof (induction specs arbitrary: h i)
  case Nil
  then show ?case by simp
next
  case (Cons a as)
  then show ?case by (simp add: upt_conv_Cons del: upt_Suc)
qed

lemma alloc_length: "alloc h base i specs = (h', objs) \<Longrightarrow> length objs = length specs"
  using alloc_objs[of h base i specs] by simp

lemma unit_cost_ge: "attempt_cost att u k \<le> unit_cost R att u k"
  by (simp add: unit_cost_def upt_conv_Cons del: upt_Suc)

lemma unit_cost_retry: "k < R \<Longrightarrow> unit_cost R att u k = attempt_cost att u k + unit_cost R att u (Suc k)"
  by (simp add: unit_cost_def upt_conv_Cons max_def del: upt_Suc)

lemma pmeasure_decreases:
  assumes "pstep R chk att s s'"
  shows "pmeasure R att s' < pmeasure R att s"
  using assms
proof (cases rule: pstep_cases)
  case (take w i u us)
  then show ?thesis
    using sum_list_map_update[OF take(2), of "wcost R att" "Working i u 1"]
    by (simp add: pmeasure_def)
next
  case (success w i u k specs h' objs)
  have "wcost R att (Emitting i objs) < wcost R att (Working i u k)"
    using unit_cost_ge[of att u k R] alloc_length[OF success(5)] success(4)
    by (simp add: attempt_cost_def)
  then show ?thesis
    using success sum_list_map_update[OF success(2), of "wcost R att" "Emitting i objs"]
    by (simp add: pmeasure_def)
next
  case (retry w i u k specs e)
  have "wcost R att (Working i u (Suc k)) < wcost R att (Working i u k)"
    using unit_cost_retry[OF retry(5), of att u] by (simp add: attempt_cost_def)
  then show ?thesis
    using retry sum_list_map_update[OF retry(2), of "wcost R att" "Working i u (Suc k)"]
    by (simp add: pmeasure_def)
next
  case (give_up w i u k specs e)
  have "0 < wcost R att (Working i u k)"
    using unit_cost_ge[of att u k R] by (simp add: attempt_cost_def)
  then show ?thesis
    using give_up sum_list_map_update[OF give_up(2), of "wcost R att" Idle]
    by (simp add: pmeasure_def)
next
  case (emit w i x xs)
  then show ?thesis
    using sum_list_map_update[OF emit(2), of "wcost R att" "Emitting i xs"]
    by (simp add: pmeasure_def)
next
  case (finish w i)
  then show ?thesis
    using sum_list_map_update[OF finish(2), of "wcost R att" Idle]
    by (simp add: pmeasure_def)
next
  case all_done
  then show ?thesis by (simp add: pmeasure_def)
next
  case (commit x xs h' d' r)
  then show ?thesis by (simp add: pmeasure_def)
qed

text \<open>
  C37: the pool terminates: \<open>pstep\<close> is well-founded, so every interleaving of the
  workers and the committer is finite, whatever the harvester and the database do.
\<close>

theorem pooled_terminates: "wf {(s', s). pstep R chk att s s'}"
  by (rule wf_subset[OF wf_measure[of "pmeasure R att"]]) (auto dest: pmeasure_decreases)

lemma pstep_workers_length:
  "pstep R chk att s s' \<Longrightarrow> length (p_workers s') = length (p_workers s)"
  by (erule pstep_cases) simp_all

lemma wstep_busy_worker:
  assumes "w < length (p_workers s)" and "p_workers s ! w \<noteq> Idle"
  shows "\<exists>s'. wstep R att s s'"
proof (cases "p_workers s ! w")
  case Idle
  with assms show ?thesis by simp
next
  case (Working i u k)
  obtain specs ex where a: "att u k = (specs, ex)" by fastforce
  show ?thesis
  proof (cases ex)
    case None
    obtain h' objs where "alloc (p_heap s) (p_free s) 0 specs = (h', objs)" by fastforce
    from wstep.success[where R = R and att = att, OF assms(1) Working a[unfolded None] this] show ?thesis by blast
  next
    case (Some e)
    show ?thesis
    proof (cases "k < R")
      case True
      from wstep.retry[where R = R and att = att, OF assms(1) Working a[unfolded Some] True] show ?thesis by blast
    next
      case False
      then have "R \<le> k" by simp
      from wstep.give_up[where R = R and att = att, OF assms(1) Working a[unfolded Some] this] show ?thesis by blast
    qed
  qed
next
  case (Emitting i xs)
  show ?thesis
  proof (cases xs)
    case Nil
    from wstep.finish[where R = R and att = att, OF assms(1) Emitting[unfolded Nil]] show ?thesis by blast
  next
    case (Cons x xs')
    from wstep.emit[where R = R and att = att, OF assms(1) Emitting[unfolded Cons]] show ?thesis by blast
  qed
qed

lemma pstep_exists:
  assumes "0 < length (p_workers s)" and "\<not> pfinal s"
  shows "\<exists>s'. pstep R chk att s s'"
proof (cases "p_results s")
  case (Cons x xs)
  obtain h' d' r where "save chk (p_heap s, p_db s) x = ((h', d'), r)" by (metis surj_pair)
  from pstep.commit[where R = R and chk = chk and att = att, OF Cons this] show ?thesis by blast
next
  case Nil
  show ?thesis
  proof (cases "\<exists>w < length (p_workers s). p_workers s ! w \<noteq> Idle")
    case True
    then obtain w where "w < length (p_workers s)" "p_workers s ! w \<noteq> Idle" by blast
    from wstep_busy_worker[OF this] show ?thesis by (blast intro: pstep.worker)
  next
    case False
    then have idle: "list_all (\<lambda>w. w = Idle) (p_workers s)" by (auto simp: list_all_length)
    show ?thesis
    proof (cases "p_units s")
      case (Cons iu us)
      obtain i u where "iu = (i, u)" by fastforce
      with Cons have "p_units s = (i, u) # us" by simp
      moreover from False assms(1) have "p_workers s ! 0 = Idle" by blast
      ultimately show ?thesis using pstep_take[where R = R and chk = chk and att = att, OF assms(1)] by blast
    next
      case units: Nil
      from assms(2) Nil have "\<not> p_done s" by (simp add: pfinal_def)
      from pstep.all_done[where R = R and chk = chk and att = att, OF units idle this] show ?thesis by blast
    qed
  qed
qed

text \<open>
  C38: from any state of a pool with at least one worker, the pool can always run
  to its final state (\<open>join\<close> returns): no interleaving deadlocks.
\<close>

theorem pooled_reaches_final:
  assumes "0 < length (p_workers s)"
  shows "\<exists>s'. (pstep R chk att)\<^sup>*\<^sup>* s s' \<and> pfinal s'"
  using assms
proof (induction "pmeasure R att s" arbitrary: s rule: less_induct)
  case less
  show ?case
  proof (cases "pfinal s")
    case True
    then show ?thesis by blast
  next
    case False
    from pstep_exists[OF less.prems False] obtain s1 where st: "pstep R chk att s s1" by blast
    have "0 < length (p_workers s1)" using pstep_workers_length[OF st] less.prems by simp
    from less.hyps[OF pmeasure_decreases[OF st] this] obtain s' where
      "(pstep R chk att)\<^sup>*\<^sup>* s1 s'" "pfinal s'" by blast
    with st show ?thesis by (meson converse_rtranclp_into_rtranclp)
  qed
qed

section \<open>Commit order\<close>

lemma pinv_init: "pinv (pinit n us h d free)"
  by (simp add: pinv_def pinit_def order_ok_def fresh_ok_def workers_ok_def idx_ok_def idx_list_def
      map_fst_enumerate)

lemma idx_listD:
  assumes "idx_list us ixs" "w < length ixs" "ixs ! w = Some i"
  shows "i \<notin> fst ` set us" "w2 < length ixs \<Longrightarrow> w2 \<noteq> w \<Longrightarrow> ixs ! w2 \<noteq> Some i"
  using assms unfolding idx_list_def by blast+

lemma idx_listI:
  assumes "distinct (map fst us)"
    and "\<And>w i. w < length ixs \<Longrightarrow> ixs ! w = Some i \<Longrightarrow> i \<notin> fst ` set us"
    and "\<And>w w2 i. w < length ixs \<Longrightarrow> ixs ! w = Some i \<Longrightarrow> w2 < length ixs \<Longrightarrow> w2 \<noteq> w \<Longrightarrow> ixs ! w2 \<noteq> Some i"
  shows "idx_list us ixs"
  unfolding idx_list_def using assms by blast

lemma idx_list_clear:
  assumes "idx_list us ixs"
  shows "idx_list us (ixs[w := None])"
proof (rule idx_listI)
  show "distinct (map fst us)" using assms by (simp add: idx_list_def)
next
  fix w1 i assume w1: "w1 < length (ixs[w := None])" "ixs[w := None] ! w1 = Some i"
  have "w1 \<noteq> w"
  proof
    assume "w1 = w"
    with w1 show False by simp
  qed
  with w1 have a: "ixs ! w1 = Some i" "w1 < length ixs" by simp_all
  from idx_listD(1)[OF assms a(2,1)] show "i \<notin> fst ` set us" .
  fix w2 assume w2: "w2 < length (ixs[w := None])" "w2 \<noteq> w1"
  with idx_listD(2)[OF assms a(2,1), of w2] show "ixs[w := None] ! w2 \<noteq> Some i"
    by (cases "w2 = w") simp_all
qed

lemma idx_list_take:
  assumes inv: "idx_list ((i, u) # us) ixs" and w: "w < length ixs" "ixs ! w = None"
  shows "idx_list us (ixs[w := Some i])"
proof (rule idx_listI)
  show "distinct (map fst us)" using inv by (simp add: idx_list_def)
next
  fix w1 j assume w1: "w1 < length (ixs[w := Some i])" "ixs[w := Some i] ! w1 = Some j"
  fix w2 assume w2: "w2 < length (ixs[w := Some i])" "w2 \<noteq> w1"
  show "ixs[w := Some i] ! w2 \<noteq> Some j"
  proof (cases "w1 = w")
    case True
    with w1 w have "j = i" by simp
    have "ixs ! w2 \<noteq> Some i"
    proof
      assume "ixs ! w2 = Some i"
      from idx_listD(1)[OF inv _ this] w2 show False by simp
    qed
    with True w2 \<open>j = i\<close> show ?thesis by simp
  next
    case False
    with w1 have j: "ixs ! w1 = Some j" "w1 < length ixs" by simp_all
    from idx_listD(1)[OF inv j(2,1)] have "j \<noteq> i" by auto
    with w2 idx_listD(2)[OF inv j(2,1), of w2] show ?thesis by (cases "w2 = w") simp_all
  qed
next
  fix w1 j assume w1: "w1 < length (ixs[w := Some i])" "ixs[w := Some i] ! w1 = Some j"
  show "j \<notin> fst ` set us"
  proof (cases "w1 = w")
    case True
    with w1 w inv show ?thesis by (simp add: idx_list_def)
  next
    case False
    with w1 have j: "ixs ! w1 = Some j" "w1 < length ixs" by simp_all
    from idx_listD(1)[OF inv j(2,1)] show ?thesis by simp
  qed
qed

lemma idx_ok_same:
  "w < length (p_workers s) \<Longrightarrow> windex v = windex (p_workers s ! w) \<Longrightarrow>
     idx_ok (s\<lparr>p_workers := (p_workers s)[w := v]\<rparr>) = idx_ok s"
proof -
  assume "w < length (p_workers s)" "windex v = windex (p_workers s ! w)"
  then have "(map windex (p_workers s))[w := windex v] = map windex (p_workers s)"
    by (simp add: list_eq_iff_nth_eq nth_list_update)
  then show ?thesis by (simp add: idx_ok_def map_update)
qed

lemma workers_okD:
  "workers_ok s \<Longrightarrow> w < length (p_workers s) \<Longrightarrow> p_workers s ! w = Emitting i xs \<Longrightarrow> emit_ok s i xs"
  unfolding workers_ok_def by blast

lemma workers_ok_step:
  assumes inv: "workers_ok s" and ws: "p_workers s' = (p_workers s)[w := v]" "w < length (p_workers s)"
    and new: "\<And>i xs. v = Emitting i xs \<Longrightarrow> emit_ok s' i xs"
    and old: "\<And>w1 j ys. w1 < length (p_workers s) \<Longrightarrow> w1 \<noteq> w \<Longrightarrow> p_workers s ! w1 = Emitting j ys \<Longrightarrow>
       emit_ok s j ys \<Longrightarrow> emit_ok s' j ys"
  shows "workers_ok s'"
  unfolding workers_ok_def
proof (intro allI impI)
  fix w1 i xs assume w1: "w1 < length (p_workers s')" "p_workers s' ! w1 = Emitting i xs"
  show "emit_ok s' i xs"
  proof (cases "w1 = w")
    case True
    with w1 ws new show ?thesis by simp
  next
    case False
    with w1 ws have "p_workers s ! w1 = Emitting i xs" "w1 < length (p_workers s)" by simp_all
    with False old workers_okD[OF inv] show ?thesis by blast
  qed
qed

lemma emit_ok_mono:
  assumes "emit_ok s i xs" "p_owner s' = p_owner s" "p_free s \<le> p_free s'"
    "set (p_out s' @ p_results s') \<subseteq> set (p_out s @ p_results s)"
  shows "emit_ok s' i xs"
  using assms unfolding emit_ok_def by fastforce

lemma workers_ok_keep:
  assumes "workers_ok s" "p_workers s' = p_workers s" "p_owner s' = p_owner s" "p_free s \<le> p_free s'"
    "set (p_out s' @ p_results s') \<subseteq> set (p_out s @ p_results s)"
  shows "workers_ok s'"
  using assms emit_ok_mono unfolding workers_ok_def by metis

lemma pinv_take:
  assumes inv: "pinv s" and w: "w < length (p_workers s)" "p_workers s ! w = Idle"
    and us: "p_units s = (i, u) # us"
  shows "pinv (s\<lparr>p_units := us, p_workers := (p_workers s)[w := Working i u 1]\<rparr>)"
    (is "pinv ?s")
proof -
  from inv have "workers_ok s" "idx_ok s" by (simp_all add: pinv_def)
  have "workers_ok ?s"
    by (rule workers_ok_step[OF \<open>workers_ok s\<close> _ w(1)]) (auto intro: emit_ok_mono)
  moreover have "idx_ok ?s"
    using idx_list_take[of i u us "map windex (p_workers s)" w] \<open>idx_ok s\<close> w us
    by (simp add: idx_ok_def map_update)
  ultimately show ?thesis using inv by (simp add: pinv_def order_ok_def fresh_ok_def)
qed

lemma pinv_clear:
  assumes inv: "pinv s" and w: "w < length (p_workers s)" and v: "windex v = None"
  shows "pinv (s\<lparr>p_workers := (p_workers s)[w := v], p_failed := fl, p_tries := t\<rparr>)"
    (is "pinv ?s")
proof -
  from inv have "workers_ok s" "idx_ok s" by (simp_all add: pinv_def)
  have "workers_ok ?s"
    by (rule workers_ok_step[OF \<open>workers_ok s\<close> _ w(1)]) (use v in \<open>auto intro: emit_ok_mono\<close>)
  moreover have "idx_ok ?s"
    using idx_list_clear[of "p_units s" "map windex (p_workers s)" w] \<open>idx_ok s\<close> v
    by (simp add: idx_ok_def map_update)
  ultimately show ?thesis using inv by (simp add: pinv_def order_ok_def fresh_ok_def)
qed

lemma pinv_retry:
  assumes inv: "pinv s" and w: "w < length (p_workers s)" "p_workers s ! w = Working i u k"
  shows "pinv (s\<lparr>p_workers := (p_workers s)[w := Working i u k'], p_tries := t\<rparr>)"
    (is "pinv ?s")
proof -
  from inv have "workers_ok s" "idx_ok s" by (simp_all add: pinv_def)
  have "workers_ok ?s"
    by (rule workers_ok_step[OF \<open>workers_ok s\<close> _ w(1)]) (auto intro: emit_ok_mono)
  moreover have "idx_ok ?s"
    using idx_ok_same[OF w(1), of "Working i u k'"] \<open>idx_ok s\<close> w by (simp add: idx_ok_def)
  ultimately show ?thesis using inv by (simp add: pinv_def order_ok_def fresh_ok_def)
qed

lemma fresh_okD:
  assumes "fresh_ok s"
  shows "y \<in> set (p_out s @ p_results s) \<Longrightarrow> y < p_free s" "p_free s \<le> x \<Longrightarrow> p_owner s x = None"
  using assms unfolding fresh_ok_def by blast+

lemma pinv_success:
  assumes inv: "pinv s" and w: "w < length (p_workers s)" "p_workers s ! w = Working i u k"
    and al: "alloc (p_heap s) (p_free s) 0 specs = (h', objs)"
  shows "pinv (s\<lparr>p_workers := (p_workers s)[w := Emitting i objs], p_heap := h',
       p_free := p_free s + length specs,
       p_owner := (\<lambda>x. if x \<in> set objs then Some i else p_owner s x), p_tries := t\<rparr>)"
    (is "pinv ?s")
proof -
  from inv have "order_ok s" "fresh_ok s" "workers_ok s" "idx_ok s" by (simp_all add: pinv_def)
  let ?F = "p_free s"
  have objs: "objs = [?F..<?F + length specs]" using alloc_objs[of "p_heap s" ?F 0 specs] al by simp
  note lt = fresh_okD(1)[OF \<open>fresh_ok s\<close>] and none = fresh_okD(2)[OF \<open>fresh_ok s\<close>]
  have own: "p_owner ?s y = p_owner s y" if "y < ?F" for y using that objs by simp
  have ltA: "\<forall>y\<in>set (p_out s). y < ?F" "\<forall>y\<in>set (p_results s). y < ?F" using lt by simp_all
  have "sorted_wrt (unit_before (p_owner ?s)) (p_out s @ p_results s)"
    using \<open>order_ok s\<close> unfolding order_ok_def
    by (rule sorted_wrt_mono_rel[rotated]) (use ltA objs in \<open>fastforce simp: unit_before_def\<close>)
  then have "order_ok ?s" by (simp add: order_ok_def)
  moreover have "fresh_ok ?s"
    unfolding fresh_ok_def using ltA none objs by fastforce
  moreover have "workers_ok ?s"
  proof (rule workers_ok_step[OF \<open>workers_ok s\<close> _ w(1)])
    fix j xs assume "Emitting i objs = Emitting j xs"
    then show "emit_ok ?s j xs"
      unfolding emit_ok_def using objs ltA by fastforce
  next
    fix w1 j ys assume "emit_ok s j ys"
    then show "emit_ok ?s j ys"
      unfolding emit_ok_def using objs ltA by fastforce
  qed simp
  moreover have "idx_ok ?s"
    using idx_ok_same[OF w(1), of "Emitting i objs"] \<open>idx_ok s\<close> w by (simp add: idx_ok_def)
  ultimately show ?thesis by (simp add: pinv_def)
qed

lemma idx_ok_unique:
  assumes "idx_ok s" "w < length (p_workers s)" "w1 < length (p_workers s)" "w1 \<noteq> w"
    "windex (p_workers s ! w) = Some i"
  shows "windex (p_workers s ! w1) \<noteq> Some i"
  using idx_listD(2)[of "p_units s" "map windex (p_workers s)" w i w1] assms by (simp add: idx_ok_def)

lemma pinv_emit:
  assumes inv: "pinv s" and w: "w < length (p_workers s)" "p_workers s ! w = Emitting i (x # xs)"
  shows "pinv (s\<lparr>p_results := p_results s @ [x], p_workers := (p_workers s)[w := Emitting i xs]\<rparr>)"
    (is "pinv ?s")
proof -
  from inv have "order_ok s" "fresh_ok s" "workers_ok s" "idx_ok s" by (simp_all add: pinv_def)
  have e: "emit_ok s i (x # xs)" by (rule workers_okD[OF \<open>workers_ok s\<close> w])
  then have x: "p_owner s x = Some i" "x < p_free s" "\<forall>y \<in> set (p_out s @ p_results s). p_owner s y = Some i \<longrightarrow> y < x"
    and xs: "emit_ok s i xs" "\<forall>z \<in> set xs. x < z"
    by (simp_all add: emit_ok_def)
  have "order_ok ?s"
    using \<open>order_ok s\<close> x by (simp add: order_ok_def sorted_wrt_append unit_before_def)
  moreover have "fresh_ok ?s"
    using \<open>fresh_ok s\<close> x by (simp add: fresh_ok_def)
  moreover have "workers_ok ?s"
  proof (rule workers_ok_step[OF \<open>workers_ok s\<close> _ w(1)])
    fix j ys assume "Emitting i xs = Emitting j ys"
    then show "emit_ok ?s j ys"
      using xs x(1) unfolding emit_ok_def by auto
  next
    fix w1 j ys assume w1: "w1 < length (p_workers s)" "w1 \<noteq> w" "p_workers s ! w1 = Emitting j ys"
      and ej: "emit_ok s j ys"
    have "j \<noteq> i" using idx_ok_unique[OF \<open>idx_ok s\<close> w(1) w1(1,2)] w w1(3) by auto
    with ej x(1) show "emit_ok ?s j ys" unfolding emit_ok_def by auto
  qed simp
  moreover have "idx_ok ?s"
    using idx_ok_same[OF w(1), of "Emitting i xs"] \<open>idx_ok s\<close> w by (simp add: idx_ok_def)
  ultimately show ?thesis by (simp add: pinv_def)
qed

lemma save_out:
  "save chk (h, d) x = ((h', d'), r) \<Longrightarrow> (case r of Inr (Some v) \<Rightarrow> [v] | _ \<Rightarrow> []) \<in> {[], [x]}"
  by (cases r rule: sum.exhaust; auto split: option.splits dest: save_Some)

lemma pinv_commit:
  assumes inv: "pinv s" and r: "p_results s = x # xs" "save chk (p_heap s, p_db s) x = ((h', d'), r)"
  shows "pinv (s\<lparr>p_results := xs, p_heap := h', p_db := d',
       p_out := p_out s @ (case r of Inr (Some v) \<Rightarrow> [v] | _ \<Rightarrow> [])\<rparr>)"
    (is "pinv ?s")
proof -
  from inv have "order_ok s" "fresh_ok s" "workers_ok s" "idx_ok s" by (simp_all add: pinv_def)
  from save_out[OF r(2)] have c: "p_out ?s @ p_results ?s = p_out s @ p_results s \<or>
      p_out ?s @ p_results ?s = p_out s @ xs"
    using r(1) by auto
  have sub: "set (p_out ?s @ p_results ?s) \<subseteq> set (p_out s @ p_results s)"
    using c r(1) by auto
  have "order_ok ?s"
    using c
  proof
    assume "p_out ?s @ p_results ?s = p_out s @ p_results s"
    with \<open>order_ok s\<close> show ?thesis by (simp add: order_ok_def)
  next
    assume "p_out ?s @ p_results ?s = p_out s @ xs"
    with \<open>order_ok s\<close> r(1) show ?thesis by (simp add: order_ok_def sorted_wrt_append)
  qed
  moreover have "fresh_ok ?s"
    using \<open>fresh_ok s\<close> sub unfolding fresh_ok_def by auto
  moreover have "workers_ok ?s"
    by (rule workers_ok_keep[OF \<open>workers_ok s\<close> _ _ _ sub]) simp_all
  moreover have "idx_ok ?s" using \<open>idx_ok s\<close> by (simp add: idx_ok_def)
  ultimately show ?thesis by (simp add: pinv_def)
qed

lemma pstep_pinv:
  assumes "pstep R chk att s s'" "pinv s"
  shows "pinv s'"
  using assms(1)
proof (cases rule: pstep_cases)
  case (take w i u us)
  then show ?thesis using pinv_take[OF assms(2)] by simp
next
  case (success w i u k specs h' objs)
  then show ?thesis using pinv_success[OF assms(2)] by simp
next
  case (retry w i u k specs e)
  then show ?thesis using pinv_retry[OF assms(2)] by simp
next
  case (give_up w i u k specs e)
  then show ?thesis using pinv_clear[OF assms(2) give_up(2), where v = Idle] by simp
next
  case (emit w i x xs)
  then show ?thesis using pinv_emit[OF assms(2)] by simp
next
  case (finish w i)
  then show ?thesis using pinv_clear[OF assms(2) finish(2), where v = Idle and fl = "p_failed s" and t = "p_tries s"] by simp
next
  case all_done
  then show ?thesis using assms(2)
    by (simp add: pinv_def order_ok_def fresh_ok_def workers_ok_def emit_ok_def idx_ok_def)
next
  case (commit x xs h' d' r)
  then show ?thesis using pinv_commit[OF assms(2)] by simp
qed

lemma reachable_pinv:
  "(pstep R chk att)\<^sup>*\<^sup>* (pinit n us h d free) s \<Longrightarrow> pinv s"
  by (induction rule: rtranclp_induct) (auto intro: pinv_init pstep_pinv)

text \<open>
  C39: in every state the pool reaches, the committer's \<open>result\<close> list holds the
  articles of each unit in the order the unit created them: interleaved workers and
  the shared queue never reorder one unit's articles.
\<close>

theorem pooled_unit_order:
  assumes "(pstep R chk att)\<^sup>*\<^sup>* (pinit n us h d free) s"
  shows "sorted_wrt (unit_before (p_owner s)) (p_out s)"
  using reachable_pinv[OF assms] by (simp add: pinv_def order_ok_def sorted_wrt_append)

section \<open>Attempts\<close>

lemma wok_mono: "wok R t x \<Longrightarrow> (\<And>i. 1 \<le> t i \<Longrightarrow> 1 \<le> t' i) \<Longrightarrow> wok R t' x"
  by (cases x) simp_all

lemma cover_upd:
  assumes c: "cover n s" and w: "w < length (p_workers s)"
    and ws: "p_workers s' = (p_workers s)[w := v]"
    and us: "\<And>j. j \<in> fst ` set (p_units s) \<Longrightarrow> j \<in> fst ` set (p_units s') \<or> windex v = Some j"
    and old: "\<And>j. windex (p_workers s ! w) = Some j \<Longrightarrow> windex v = Some j \<or> 1 \<le> p_tries s' j"
    and t: "\<And>j. 1 \<le> p_tries s j \<Longrightarrow> 1 \<le> p_tries s' j"
  shows "cover n s'"
  unfolding cover_def
proof (intro allI impI)
  fix i assume "i < n"
  let ?ix = "map windex (p_workers s)"
  have new: "windex v = Some i \<Longrightarrow> Some i \<in> set (map windex (p_workers s'))"
    using set_update_memI[of w ?ix "windex v"] w ws by (simp add: map_update)
  from c \<open>i < n\<close> consider "i \<in> fst ` set (p_units s)" | "Some i \<in> set ?ix" | "1 \<le> p_tries s i"
    unfolding cover_def by blast
  then show "i \<in> fst ` set (p_units s') \<or> Some i \<in> set (map windex (p_workers s')) \<or> 1 \<le> p_tries s' i"
  proof cases
    case 1
    with us new show ?thesis by blast
  next
    case 2
    show ?thesis
    proof (cases "Some i = ?ix ! w")
      case True
      with w have "windex (p_workers s ! w) = Some i" by simp
      from old[OF this] new show ?thesis by auto
    next
      case False
      from in_set_update_other[OF 2 False, of "windex v"] ws show ?thesis by (simp add: map_update)
    qed
  next
    case 3
    with t show ?thesis by blast
  qed
qed

lemma tinv_busy:
  assumes "tinv R n s" "w < length (p_workers s)" "p_workers s ! w \<noteq> Idle"
  shows "\<not> p_done s" "wok R (p_tries s) (p_workers s ! w)"
  using assms by (auto simp: tinv_def list_all_length)

lemma tinv_upd:
  assumes inv: "tinv R n s" and w: "w < length (p_workers s)" and nd: "\<not> p_done s"
    and s': "p_workers s' = (p_workers s)[w := v]" "p_done s' = p_done s"
    and tb: "\<And>i. p_tries s' i \<le> max 1 R" and tm: "\<And>j. 1 \<le> p_tries s j \<Longrightarrow> 1 \<le> p_tries s' j"
    and v: "wok R (p_tries s') v"
    and us: "\<And>j. j \<in> fst ` set (p_units s) \<Longrightarrow> j \<in> fst ` set (p_units s') \<or> windex v = Some j"
    and old: "\<And>j. windex (p_workers s ! w) = Some j \<Longrightarrow> windex v = Some j \<or> 1 \<le> p_tries s' j"
  shows "tinv R n s'"
proof -
  from inv have l: "list_all (wok R (p_tries s)) (p_workers s)" and c: "cover n s"
    by (simp_all add: tinv_def)
  from l have "list_all (wok R (p_tries s')) (p_workers s)"
    unfolding list_all_iff using wok_mono tm by blast
  then have "list_all (wok R (p_tries s')) (p_workers s')"
    using list_all_update v s'(1) by metis
  moreover have "cover n s'" by (rule cover_upd[OF c w s'(1) us old tm])
  ultimately show ?thesis using tb nd s'(2) by (simp add: tinv_def)
qed

lemma tinv_take:
  assumes inv: "tinv R n s" and w: "w < length (p_workers s)" "p_workers s ! w = Idle"
    and us: "p_units s = (i, u) # us"
  shows "tinv R n (s\<lparr>p_units := us, p_workers := (p_workers s)[w := Working i u 1]\<rparr>)"
proof (rule tinv_upd[OF inv w(1)])
  show "\<not> p_done s" using inv us by (auto simp: tinv_def)
qed (use inv us w in \<open>auto simp: tinv_def\<close>)

lemma tinv_attempt:
  assumes inv: "tinv R n s" and w: "w < length (p_workers s)" "p_workers s ! w = Working i u k"
    and v: "windex v = None \<or> windex v = Some i" "wok R ((p_tries s)(i := k)) v"
  shows "tinv R n (s\<lparr>p_workers := (p_workers s)[w := v], p_failed := fl, p_tries := (p_tries s)(i := k)\<rparr>)"
proof -
  have nd: "\<not> p_done s" and k: "1 \<le> k \<and> k \<le> max 1 R" using tinv_busy[OF inv w(1)] w(2) by simp_all
  show ?thesis
    by (rule tinv_upd[OF inv w(1) nd]) (use inv k v w in \<open>auto simp: tinv_def\<close>)
qed

lemma tinv_cong:
  "p_units s' = p_units s \<Longrightarrow> p_workers s' = p_workers s \<Longrightarrow> p_tries s' = p_tries s \<Longrightarrow>
     p_done s' = p_done s \<Longrightarrow> tinv R n s' = tinv R n s"
  by (simp add: tinv_def cover_def)

lemma pstep_tinv:
  assumes "pstep R chk att s s'" "tinv R n s"
  shows "tinv R n s'"
  using assms(1)
proof (cases rule: pstep_cases)
  case (take w i u us)
  then show ?thesis using tinv_take[OF assms(2)] by simp
next
  case (success w i u k specs h' objs)
  have "tinv R n (s\<lparr>p_workers := (p_workers s)[w := Emitting i objs], p_failed := p_failed s,
      p_tries := (p_tries s)(i := k)\<rparr>)"
    by (rule tinv_attempt[OF assms(2) success(2,3)]) (use tinv_busy[OF assms(2) success(2)] success(3) in simp_all)
  moreover have "tinv R n s' = tinv R n (s\<lparr>p_workers := (p_workers s)[w := Emitting i objs],
      p_failed := p_failed s, p_tries := (p_tries s)(i := k)\<rparr>)"
    by (rule tinv_cong) (simp_all add: success(1))
  ultimately show ?thesis by simp
next
  case (retry w i u k specs e)
  then show ?thesis using tinv_attempt[OF assms(2) retry(2,3), of "Working i u (Suc k)" "p_failed s"]
    by simp
next
  case (give_up w i u k specs e)
  then show ?thesis using tinv_attempt[OF assms(2) give_up(2,3), of Idle] tinv_busy[OF assms(2) give_up(2)]
    by simp
next
  case (emit w i x xs)
  have "tinv R n (s\<lparr>p_workers := (p_workers s)[w := Emitting i xs]\<rparr>)"
    by (rule tinv_upd[OF assms(2) emit(2), where v = "Emitting i xs"]) (use tinv_busy[OF assms(2) emit(2)] emit(3) assms(2) in \<open>simp_all add: tinv_def\<close>)
  moreover have "tinv R n s' = tinv R n (s\<lparr>p_workers := (p_workers s)[w := Emitting i xs]\<rparr>)"
    by (rule tinv_cong) (simp_all add: emit(1))
  ultimately show ?thesis by simp
next
  case (finish w i)
  then show ?thesis
    by (intro tinv_upd[OF assms(2) finish(2), where v = Idle]) (use tinv_busy[OF assms(2) finish(2)] finish(3) assms(2) in \<open>simp_all add: tinv_def\<close>)
next
  case all_done
  then show ?thesis using assms(2) by (simp add: tinv_def cover_def)
next
  case (commit x xs h' d' r)
  have "tinv R n s' = tinv R n s" by (rule tinv_cong) (simp_all add: commit(1))
  then show ?thesis using assms(2) by simp
qed

lemma tinv_init: "tinv R (length us) (pinit n us h d free)"
proof -
  have "fst ` set (enumerate 0 us) = {0..<length us}"
    using map_fst_enumerate[of 0 us] by (metis atLeastLessThan_upt list.set_map add_0)
  then show ?thesis by (simp add: tinv_def cover_def pinit_def list_all_iff)
qed

lemma reachable_tinv:
  "(pstep R chk att)\<^sup>*\<^sup>* (pinit n us h d free) s \<Longrightarrow> tinv R (length us) s"
  by (induction rule: rtranclp_induct) (auto intro: tinv_init pstep_tinv)

text \<open>
  C40: when the pool has finished (the queue is drained after \<open>done\<close>), every unit
  of the harvester was attempted, at least once and at most \<open>max 1 R\<close> times: no
  unit is lost between the work queue and the workers, and the retry budget bounds
  the attempts.
\<close>

theorem pooled_every_unit_tried:
  assumes "(pstep R chk att)\<^sup>*\<^sup>* (pinit n us h d free) s" "pfinal s" "i < length us"
  shows "1 \<le> p_tries s i \<and> p_tries s i \<le> max 1 R"
proof -
  from reachable_tinv[OF assms(1)] have t: "tinv R (length us) s" .
  then have idle: "p_units s = []" "list_all (\<lambda>w. w = Idle) (p_workers s)"
    using assms(2) by (simp_all add: tinv_def pfinal_def)
  then have "Some i \<notin> set (map windex (p_workers s))" by (auto simp: list_all_iff)
  with t idle assms(3) have "1 \<le> p_tries s i" by (auto simp: tinv_def cover_def)
  with t show ?thesis by (simp add: tinv_def)
qed

section \<open>Witnesses\<close>

lemma ex_pool_run:
  "\<exists>s. (pstep 3 test_chk ex_att)\<^sup>*\<^sup>* ex_pool s \<and> pfinal s \<and> p_out s = [100] \<and> p_tries s 0 = 2"
  unfolding ex_pool_def pinit_def
  apply (rule exI, rule conjI)
   apply (rule converse_rtranclp_into_rtranclp)
    apply (rule pstep_take[where w = 0 and i = 0 and u = 0 and us = "[]"]; simp)
   apply (rule converse_rtranclp_into_rtranclp)
    apply (rule pstep_retry[where w = 0 and i = 0 and u = 0 and k = 1 and specs = "[]" and e = DatabaseError];
      simp add: ex_att_def)
   apply (rule converse_rtranclp_into_rtranclp)
    apply (rule pstep_success[where w = 0 and i = 0 and u = 0 and k = 2
      and specs = "[\<lparr>s_parent = SNone, s_payload = Headline 0\<rparr>]"
      and h' = "fst (alloc (c_heap ex_state) 100 0 [\<lparr>s_parent = SNone, s_payload = Headline 0\<rparr>])"
      and objs = "[100]"]; simp add: ex_att_def)
   apply (rule converse_rtranclp_into_rtranclp)
    apply (rule pstep_emit[where w = 0 and i = 0 and x = 100 and xs = "[]"]; simp)
   apply (rule converse_rtranclp_into_rtranclp)
    apply (rule pstep_finish[where w = 0 and i = 0]; simp)
   apply (rule converse_rtranclp_into_rtranclp)
    apply (rule pstep.all_done; simp)
   apply (rule converse_rtranclp_into_rtranclp)
    apply (rule pstep.commit[where x = 100 and xs = "[]" and h' = "fst (fst (save test_chk ((c_heap ex_state)(100 := \<lparr>pk = None, parent = PNone, payload = Headline 0\<rparr>), c_db ex_state) 100))"
      and d' = "snd (fst (save test_chk ((c_heap ex_state)(100 := \<lparr>pk = None, parent = PNone, payload = Headline 0\<rparr>), c_db ex_state) 100))" and r = "Inr (Some 100)"];
      simp add: save_def ex_state_def savepoint_def model_save_def test_chk_def db_write_def)
   apply (rule rtranclp.rtrancl_refl)
  apply (simp add: pfinal_def)
  done

theorem pooled_reaches_final_witness:
  "\<exists>s'. (pstep 3 test_chk ex_att)\<^sup>*\<^sup>* ex_pool s' \<and> pfinal s' \<and> 0 < length (p_workers ex_pool)"
proof -
  have "0 < length (p_workers ex_pool)" by (simp add: ex_pool_def pinit_def)
  with pooled_reaches_final[OF this, of 3 test_chk ex_att] show ?thesis by blast
qed

theorem pooled_unit_order_witness:
  "\<exists>s. (pstep 3 test_chk ex_att)\<^sup>*\<^sup>* ex_pool s \<and> p_out s = [100] \<and>
     sorted_wrt (unit_before (p_owner s)) (p_out s)"
proof -
  from ex_pool_run obtain s where s: "(pstep 3 test_chk ex_att)\<^sup>*\<^sup>* ex_pool s" "p_out s = [100]" by blast
  with pooled_unit_order[of 3 test_chk ex_att 1 "[0]" "c_heap ex_state" "c_db ex_state" 100 s]
  show ?thesis by (auto simp: ex_pool_def)
qed

theorem pooled_every_unit_tried_witness:
  "\<exists>s. (pstep 3 test_chk ex_att)\<^sup>*\<^sup>* ex_pool s \<and> pfinal s \<and> 0 < length [0::nat] \<and>
     1 \<le> p_tries s 0 \<and> p_tries s 0 \<le> max 1 3"
proof -
  from ex_pool_run obtain s where s: "(pstep 3 test_chk ex_att)\<^sup>*\<^sup>* ex_pool s" "pfinal s" by blast
  with pooled_every_unit_tried[of 3 test_chk ex_att 1 "[0]" "c_heap ex_state" "c_db ex_state" 100 s 0]
  show ?thesis by (auto simp: ex_pool_def)
qed

end
