(* ===== verification/ControllerTests.thy ===== *)
theory ControllerTests
  imports Pooled "HOL-Library.Multiset"
begin

text \<open>
  The tests of \<open>src/amcat/scraping/controller.py\<close>: \<open>TestController.test_threaded\<close>
  on the worker relation \<open>wstep\<close> of \<open>Pooled\<close> and the in-thread save loop;
  \<open>test_scraper\<close>, \<open>test_set\<close> and \<open>TestRobustController.test_rollback\<close> as their
  assertions on a run of \<open>Controller.scrape\<close>; and the two production tests.
\<close>

section \<open>TestController.test_threaded\<close>

text \<open>
  \<^verbatim>\<open>
  def test_threaded(self):
      p = amcattest.create_test_project()
      q = Queue()
      c = ThreadedController()
      ts = _TestScraper(project=p)
      c._scrape_to_queue(ts, q)
      while not q.empty():
          c.save(q.get())
      self.assertEqual(p.articles.count(), ts.n)
  \<close>
  The test runs only the workers (\<open>_scrape_to_queue\<close>), then saves the queue in the
  test's own thread.  \<open>distribute_tasks\<close> calls \<open>scraper.scrape_unit\<close> on each attempt
  (\<open>test_att\<close>: the test scraper answers the same on every attempt) and returns once
  every unit is taken and every worker idle (\<open>queue_joined\<close>); \<open>scrape_to_queue\<close>
  relates the start of \<open>_scrape_to_queue\<close> to each state in which it can return.
\<close>

definition test_att :: "nat \<Rightarrow> nat \<Rightarrow> nat \<Rightarrow> nat \<Rightarrow> tpay art_spec gen" where
  "test_att s n u k = scrape_unit (test_scraper s n) u"

definition queue_joined :: "('u, 'p) pstate \<Rightarrow> bool" where
  "queue_joined st = (p_units st = [] \<and> list_all (\<lambda>w. w = Idle) (p_workers st))"

definition scrape_to_queue ::
  "nat \<Rightarrow> ('u \<Rightarrow> nat \<Rightarrow> 'p art_spec gen) \<Rightarrow> nat \<Rightarrow> 'u list \<Rightarrow> 'p heap \<Rightarrow> 'p db \<Rightarrow> oid \<Rightarrow> ('u, 'p) pstate \<Rightarrow> bool" where
  "scrape_to_queue R att nthreads us h d free st =
     ((wstep R att)\<^sup>*\<^sup>* (pinit nthreads us h d free) st \<and> queue_joined st)"

text \<open>\<open>while not q.empty(): c.save(q.get())\<close>: an exception of \<open>save\<close> ends the test.\<close>

fun save_queue :: "'p chk \<Rightarrow> 'p mem \<Rightarrow> oid list \<Rightarrow> 'p mem \<times> (exc + oid option list)" where
  "save_queue chk m [] = (m, Inr [])"
| "save_queue chk m (x # xs) =
     (case save chk m x of
        (m', Inl e) \<Rightarrow> (m', Inl e)
      | (m', Inr r) \<Rightarrow> apsnd (map_sum id (Cons r)) (save_queue chk m' xs))"

text \<open>
  The assertion: the test project, empty before, holds \<open>ts.n\<close> articles, i.e. the loop
  returned and wrote \<open>n\<close> rows.
\<close>

definition test_threaded_asserts :: "nat \<Rightarrow> 'p db \<Rightarrow> 'p mem \<times> (exc + oid option list) \<Rightarrow> bool" where
  "test_threaded_asserts n d r =
     (case r of ((h', d'), Inr _) \<Rightarrow> length (log d') = length (log d) + n | (_, Inl _) \<Rightarrow> False)"

definition test_threaded :: "nat \<Rightarrow> nat \<Rightarrow> nat \<Rightarrow> tpay heap \<Rightarrow> tpay db \<Rightarrow> oid \<Rightarrow> (nat, tpay) pstate \<Rightarrow> bool" where
  "test_threaded nthreads s n h d free st =
     test_threaded_asserts n d (save_queue test_chk (p_heap st, p_db st) (p_results st))"

section \<open>TestController.test_scraper, test_set and TestRobustController.test_rollback\<close>

text \<open>
  \<^verbatim>\<open>
  def test_scraper(self):
      p = amcattest.create_test_project()
      s = amcattest.create_test_set()
      c = SimpleController()
      ts = _TestScraper(project=p,articleset=s)
      articles = c.scrape(ts)
      self.assertEqual(p.articles.count(), ts.n)
      self.assertEqual(set(articles), set(p.articles.all()))
      self.assertEqual(s, ts.articleset)
  \<close>
  The project is new, so its articles are the rows the test writes (\<open>new_rows\<close>);
  Django instances hash and compare by primary key, so the two sets are equal when
  the returned objects carry exactly the keys of those rows.  A run that does not
  return (\<open>None\<close>: the saver out of fuel) fails the test.
\<close>

definition new_rows :: "'p db \<Rightarrow> 'p db \<Rightarrow> 'p row list" where
  "new_rows d d' = drop (length (log d)) (log d')"

definition test_scraper_asserts ::
  "nat \<Rightarrow> nat \<Rightarrow> (nat, tpay) cstate \<Rightarrow> ((nat, tpay) cstate \<times> 'dt sets \<times> oid set) option \<Rightarrow> bool" where
  "test_scraper_asserts s n st r =
     (case r of
        None \<Rightarrow> False
      | Some (st', ss', arts) \<Rightarrow>
          length (new_rows (c_db st) (c_db st')) = n \<and>
          (\<lambda>x. pk (c_heap st' x)) ` arts = (\<lambda>r. Some (row_pk r)) ` set (new_rows (c_db st) (c_db st')) \<and>
          articleset (test_scraper s n) = s)"

definition test_scraper_test :: "nat \<Rightarrow> nat \<Rightarrow> nat \<Rightarrow> (nat, tpay) cstate \<Rightarrow> unit sets \<Rightarrow> bool" where
  "test_scraper_test R s n st ss =
     test_scraper_asserts s n st (scrape (simple_scrape R test_chk) False (One (test_scraper s n)) st ss)"

text \<open>
  \<open>test_set\<close>: \<open>SimpleController(s)\<close> (the controller's own \<open>articleset\<close> is never
  read) scrapes \<open>_TestScraper(project=p, articleset=s)\<close>; the project and the set,
  both new, then hold \<open>ts.n\<close> articles.
\<close>

definition test_set_test :: "nat \<Rightarrow> nat \<Rightarrow> nat \<Rightarrow> (nat, tpay) cstate \<Rightarrow> unit sets \<Rightarrow> bool" where
  "test_set_test R s n st ss =
     (case scrape (simple_scrape R test_chk) False (One (test_scraper s n)) st ss of
        None \<Rightarrow> False
      | Some (st', ss', arts) \<Rightarrow> length (new_rows (c_db st) (c_db st')) = n \<and> length (members ss' s) = n)"

text \<open>
  \<open>test_rollback\<close>: a \<open>RobustController\<close> scrapes \<open>_ErrorScraper(articleset=s)\<close>
  with logging disabled; the new set \<open>s\<close> then holds one article.
\<close>

definition test_rollback_test :: "nat \<Rightarrow> nat \<Rightarrow> (nat, tpay) cstate \<Rightarrow> unit sets \<Rightarrow> bool" where
  "test_rollback_test R s st ss =
     (case scrape (robust_scrape R test_chk) False (One (error_scraper s)) st ss of
        None \<Rightarrow> False
      | Some (st', ss', arts) \<Rightarrow> length (members ss' s) = 1)"

section \<open>The production tests\<close>

text \<open>
  \<open>production_test_multithreaded_saving\<close>: after fetching project 2 and creating a
  test set (\<open>pre\<close>: their outcome), it constructs \<open>_TestScraper(projectid=p.id)\<close>, but
  \<open>_TestScraper.__init__\<close> takes no \<open>projectid\<close> argument: the call raises
  \<open>TypeError\<close> before anything is scraped.
\<close>

definition production_test_multithreaded_saving :: "exc + unit \<Rightarrow> exc + unit" where
  "production_test_multithreaded_saving pre =
     (case pre of
        Inl e \<Rightarrow> Inl e
      | Inr _ \<Rightarrow> Inl (TypeError ''__init__() got an unexpected keyword argument projectid''))"

text \<open>
  \<open>production_test_logged_multithreaded_error\<close>: after the imports, fetching project 2
  and constructing the two scrapers (\<open>pre\<close>), it calls \<open>scrape_logged\<close>, a name that
  is neither defined nor imported in the module: the call raises \<open>NameError\<close>.
\<close>

definition production_test_logged_multithreaded_error :: "exc + unit \<Rightarrow> exc + unit" where
  "production_test_logged_multithreaded_error pre =
     (case pre of
        Inl e \<Rightarrow> Inl e
      | Inr _ \<Rightarrow> Inl (NameError ''scrape_logged''))"

section \<open>The queue invariant\<close>

text \<open>
  While \<open>_scrape_to_queue\<close> runs the test scraper, the units still queued, the
  articles still held by workers and those on the queue add up to \<open>n\<close> (each unit
  makes exactly one article); the objects on the queue or held by a worker are
  distinct, below the next free address, new, parentless and savable.
\<close>

definition fresh_headline :: "tpay heap \<Rightarrow> oid \<Rightarrow> bool" where
  "fresh_headline h x = (pk (h x) = None \<and> parent (h x) = PNone \<and> payload (h x) \<noteq> ErrorArticle)"

fun wpending :: "'u wstate \<Rightarrow> nat" where
  "wpending Idle = 0"
| "wpending (Working i u k) = 1"
| "wpending (Emitting i xs) = length xs"

fun wobjs :: "'u wstate \<Rightarrow> oid list" where
  "wobjs (Emitting i xs) = xs"
| "wobjs _ = []"

definition allq :: "('u, tpay) pstate \<Rightarrow> oid list" where
  "allq s = p_results s @ concat (map wobjs (p_workers s))"

definition tq_inv :: "nat \<Rightarrow> ('u, tpay) pstate \<Rightarrow> bool" where
  "tq_inv n s =
     (length (p_results s) + sum_list (map wpending (p_workers s)) + length (p_units s) = n \<and>
      distinct (allq s) \<and> (\<forall>x \<in> set (allq s). x < p_free s \<and> fresh_headline (p_heap s) x))"

lemma save_fresh_headline:
  assumes "fresh_headline h x" "\<not> aborted d"
  shows "\<exists>h' d'. save test_chk (h, d) x = ((h', d'), Inr (Some x)) \<and> \<not> aborted d' \<and>
           length (log d') = Suc (length (log d)) \<and> (\<forall>y. y \<noteq> x \<longrightarrow> h' y = h y)"
  using assms
  by (simp add: fresh_headline_def save_def model_save_def savepoint_def db_write_def test_chk_def Let_def)

lemma save_queue_fresh:
  assumes "distinct xs" "list_all (fresh_headline h) xs" "\<not> aborted d"
  shows "\<exists>h' d'. save_queue test_chk (h, d) xs = ((h', d'), Inr (map Some xs)) \<and>
           length (log d') = length (log d) + length xs"
  using assms
proof (induction xs arbitrary: h d)
  case Nil
  then show ?case by simp
next
  case (Cons x xs)
  from Cons.prems have fx: "fresh_headline h x" by simp
  from save_fresh_headline[OF fx Cons.prems(3)] obtain h1 d1 where
    s1: "save test_chk (h, d) x = ((h1, d1), Inr (Some x))" "\<not> aborted d1"
      "length (log d1) = Suc (length (log d))" and same: "\<forall>y. y \<noteq> x \<longrightarrow> h1 y = h y" by blast
  have "list_all (fresh_headline h1) xs"
    using Cons.prems(1,2) same by (auto simp: list_all_iff fresh_headline_def)
  from Cons.IH[OF _ this s1(2)] Cons.prems(1) obtain h' d' where
    "save_queue test_chk (h1, d1) xs = ((h', d'), Inr (map Some xs))" "length (log d') = length (log d1) + length xs"
    by auto
  with s1 show ?case by simp
qed

lemma mset_concat_map_update:
  "w < length ws \<Longrightarrow> mset (concat (map f (ws[w := v]))) + mset (f (ws ! w)) = mset (concat (map f ws)) + mset (f v)"
proof (induction ws arbitrary: w)
  case Nil
  then show ?case by simp
next
  case (Cons a ws)
  then show ?case by (cases w) (auto simp: add_ac)
qed

lemma concat_map_update_same:
  "w < length ws \<Longrightarrow> f v = f (ws ! w) \<Longrightarrow> concat (map f (ws[w := v])) = concat (map f ws)"
proof -
  assume "w < length ws" "f v = f (ws ! w)"
  then have "(map f ws)[w := f v] = map f ws" by (simp add: list_eq_iff_nth_eq nth_list_update)
  then show ?thesis by (simp add: map_update)
qed

lemma tq_invD:
  assumes "tq_inv n s"
  shows "length (p_results s) + sum_list (map wpending (p_workers s)) + length (p_units s) = n"
    "distinct (allq s)" "x \<in> set (allq s) \<Longrightarrow> x < p_free s" "x \<in> set (allq s) \<Longrightarrow> fresh_headline (p_heap s) x"
  using assms unfolding tq_inv_def by blast+

lemma tq_inv_same_objs:
  assumes "tq_inv n s" "allq s' = allq s" "p_free s' = p_free s" "p_heap s' = p_heap s"
    "length (p_results s') + sum_list (map wpending (p_workers s')) + length (p_units s') =
     length (p_results s) + sum_list (map wpending (p_workers s)) + length (p_units s)"
  shows "tq_inv n s'"
  using assms unfolding tq_inv_def by simp

lemma tq_inv_mset:
  assumes "tq_inv n s" "mset (allq s') = mset (allq s)" "p_free s' = p_free s" "p_heap s' = p_heap s"
    "length (p_results s') + sum_list (map wpending (p_workers s')) + length (p_units s') =
     length (p_results s) + sum_list (map wpending (p_workers s)) + length (p_units s)"
  shows "tq_inv n s'"
proof -
  have "set (allq s') = set (allq s)" "distinct (allq s') = distinct (allq s)"
    using assms(2) by (metis set_mset_mset, rule mset_eq_imp_distinct_iff)
  with assms show ?thesis unfolding tq_inv_def by simp
qed

lemma test_att_ok: "test_att s n u k = ([\<lparr>s_parent = SNone, s_payload = Headline u\<rparr>], None)"
  by (simp add: test_att_def test_scraper_def)

text \<open>A worker's successful attempt of \<open>_TestScraper\<close> puts one fresh headline in the pipeline.\<close>

lemma tq_inv_success:
  assumes inv: "tq_inv n st" and w: "w < length (p_workers st)" "p_workers st ! w = Working i u k"
    and a: "test_att s n u k = (specs, None)" and al: "alloc (p_heap st) (p_free st) 0 specs = (h', objs)"
  shows "tq_inv n (st\<lparr>p_workers := (p_workers st)[w := Emitting i objs], p_heap := h',
    p_free := p_free st + length specs, p_owner := own, p_tries := tr\<rparr>)" (is "tq_inv n ?st")
proof -
  let ?F = "p_free st"
  from a have specs: "specs = [\<lparr>s_parent = SNone, s_payload = Headline u\<rparr>]" by (simp add: test_att_ok)
  with al have ho: "h' = (p_heap st)(?F := \<lparr>pk = None, parent = PNone, payload = Headline u\<rparr>)" "objs = [?F]"
    by simp_all
  have m: "mset (allq ?st) = add_mset ?F (mset (allq st))"
    using mset_concat_map_update[OF w(1), of wobjs "Emitting i objs"] w ho by (simp add: allq_def)
  have lt: "x \<in> set (allq st) \<Longrightarrow> x < ?F" for x using tq_invD(3)[OF inv] .
  from m have m': "mset (allq ?st) = mset (allq st @ [?F])" by simp
  have "distinct (allq ?st)"
    using mset_eq_imp_distinct_iff[OF m'] tq_invD(2)[OF inv] lt by auto
  moreover have "x < p_free ?st \<and> fresh_headline (p_heap ?st) x" if "x \<in> set (allq ?st)" for x
  proof -
    have "set (allq ?st) = set (allq st @ [?F])" by (metis m' set_mset_mset)
    with that have "x = ?F \<or> x \<in> set (allq st)" by simp
    then show ?thesis
    proof
      assume "x = ?F"
      then show ?thesis using ho specs by (simp add: fresh_headline_def)
    next
      assume x: "x \<in> set (allq st)"
      with lt have "x < ?F" by blast
      with x tq_invD(4)[OF inv x] ho specs show ?thesis by (simp add: fresh_headline_def)
    qed
  qed
  moreover have "sum_list (map wpending (p_workers ?st)) = sum_list (map wpending (p_workers st))"
    using sum_list_map_update[OF w(1), of wpending "Emitting i objs"] w ho by simp
  ultimately show ?thesis using tq_invD(1)[OF inv] unfolding tq_inv_def by simp
qed

lemma wstep_tq_inv:
  assumes "wstep R (test_att s n) st st'" "tq_inv n st"
  shows "tq_inv n st'"
  using assms(1)
proof cases
  case (take w i u us)
  have "allq st' = allq st" using take concat_map_update_same[OF take(2), of wobjs "Working i u 1"]
    by (simp add: allq_def)
  moreover have "sum_list (map wpending (p_workers st')) = Suc (sum_list (map wpending (p_workers st)))"
    using sum_list_map_update[OF take(2), of wpending "Working i u 1"] take by simp
  ultimately show ?thesis using take by (intro tq_inv_same_objs[OF assms(2)]) simp_all
next
  case (success w i u k specs h' objs)
  from tq_inv_success[OF assms(2) success(2-5)] success(1) show ?thesis by simp
next
  case (retry w i u k specs e)
  then show ?thesis by (simp add: test_att_ok)
next
  case (give_up w i u k specs e)
  then show ?thesis by (simp add: test_att_ok)
next
  case (emit w i x xs)
  have "mset (allq st') = mset (allq st)"
    using mset_concat_map_update[OF emit(2), of wobjs "Emitting i xs"] emit by (simp add: allq_def)
  moreover have "sum_list (map wpending (p_workers st')) + 1 = sum_list (map wpending (p_workers st))"
    using sum_list_map_update[OF emit(2), of wpending "Emitting i xs"] emit by simp
  ultimately show ?thesis using emit by (intro tq_inv_mset[OF assms(2)]) simp_all
next
  case (finish w i)
  have "allq st' = allq st" using finish concat_map_update_same[OF finish(2), of wobjs Idle]
    by (simp add: allq_def)
  moreover have "sum_list (map wpending (p_workers st')) = sum_list (map wpending (p_workers st))"
    using sum_list_map_update[OF finish(2), of wpending Idle] finish by simp
  ultimately show ?thesis using finish by (intro tq_inv_same_objs[OF assms(2)]) simp_all
qed

lemma wstep_db: "wstep R att s s' \<Longrightarrow> p_db s' = p_db s \<and> length (p_workers s') = length (p_workers s)"
  by (erule wstep.cases) simp_all

lemma tq_inv_init: "tq_inv n (pinit nt [0..<n] h d free)"
  by (simp add: tq_inv_def pinit_def allq_def map_replicate sum_list_replicate concat_replicate_trivial)

lemma reach_tq_inv:
  "(wstep R (test_att s n))\<^sup>*\<^sup>* (pinit nt [0..<n] h d free) st \<Longrightarrow> tq_inv n st \<and> p_db st = d"
proof (induction rule: rtranclp_induct)
  case base
  show ?case using tq_inv_init[of n nt h d free] by (simp add: pinit_def)
next
  case (step y z)
  then show ?case using wstep_tq_inv[of R s n y z] wstep_db[of R "test_att s n" y z] by simp
qed

lemma joined_queue:
  assumes "tq_inv n st" "queue_joined st"
  shows "length (p_results st) = n \<and> distinct (p_results st) \<and> list_all (fresh_headline (p_heap st)) (p_results st)"
proof -
  from assms(2) have idle: "p_units st = []" "\<forall>w \<in> set (p_workers st). w = Idle"
    by (simp_all add: queue_joined_def list_all_iff)
  then have "sum_list (map wpending (p_workers st)) = 0" "concat (map wobjs (p_workers st)) = []"
    by (induction "p_workers st" arbitrary: st) auto
  with assms(1) idle show ?thesis by (auto simp: tq_inv_def allq_def list_all_iff)
qed

lemma wstep_exists:
  assumes "0 < length (p_workers s)" "\<not> queue_joined s"
  shows "\<exists>s'. wstep R att s s'"
proof (cases "\<exists>w < length (p_workers s). p_workers s ! w \<noteq> Idle")
  case True
  then obtain w where "w < length (p_workers s)" "p_workers s ! w \<noteq> Idle" by blast
  from wstep_busy_worker[OF this] show ?thesis .
next
  case False
  with assms(2) obtain iu us where u: "p_units s = iu # us"
    by (cases "p_units s") (auto simp: queue_joined_def list_all_length)
  obtain i u where "iu = (i, u)" by fastforce
  with u False assms(1) wstep.take[where R = R and att = att, of 0 s i u us] show ?thesis by blast
qed

lemma wstep_reaches_joined:
  assumes "0 < length (p_workers s)"
  shows "\<exists>s'. (wstep R att)\<^sup>*\<^sup>* s s' \<and> queue_joined s'"
  using assms
proof (induction "pmeasure R att s" arbitrary: s rule: less_induct)
  case less
  show ?case
  proof (cases "queue_joined s")
    case True
    then show ?thesis by blast
  next
    case False
    from wstep_exists[OF less.prems False] obtain s1 where st: "wstep R att s s1" by blast
    have "0 < length (p_workers s1)" using wstep_db[OF st] less.prems by simp
    from less.hyps[OF pmeasure_decreases[OF pstep.worker[OF st]] this] obtain s' where
      "(wstep R att)\<^sup>*\<^sup>* s1 s'" "queue_joined s'" by blast
    with st show ?thesis by (meson converse_rtranclp_into_rtranclp)
  qed
qed

text \<open>
  C34: \<open>test_threaded\<close> passes for every number \<open>n\<close> of units, every number of threads
  and every interleaving of the workers: \<open>_scrape_to_queue\<close> can return, and whenever
  it returns the queue holds the \<open>n\<close> new articles and saving them in the test's
  thread writes \<open>n\<close> rows.
\<close>

theorem threaded_test_passes:
  assumes "\<not> aborted d" "0 < nt"
  shows "(\<exists>st. scrape_to_queue 3 (test_att s n) nt [0..<n] h d free st) \<and>
    (\<forall>st. scrape_to_queue 3 (test_att s n) nt [0..<n] h d free st \<longrightarrow> test_threaded nt s n h d free st)"
proof
  show "\<exists>st. scrape_to_queue 3 (test_att s n) nt [0..<n] h d free st"
    using wstep_reaches_joined[of "pinit nt [0..<n] h d free"] assms(2) by (simp add: pinit_def scrape_to_queue_def)
next
  show "\<forall>st. scrape_to_queue 3 (test_att s n) nt [0..<n] h d free st \<longrightarrow> test_threaded nt s n h d free st"
  proof (intro allI impI)
    fix st
    assume "scrape_to_queue 3 (test_att s n) nt [0..<n] h d free st"
    then have r: "(wstep 3 (test_att s n))\<^sup>*\<^sup>* (pinit nt [0..<n] h d free) st" and j: "queue_joined st"
      by (simp_all add: scrape_to_queue_def)
    from reach_tq_inv[OF r] have t: "tq_inv n st" and db: "p_db st = d" by simp_all
    from joined_queue[OF t j] have q: "length (p_results st) = n" "distinct (p_results st)"
      "list_all (fresh_headline (p_heap st)) (p_results st)" by simp_all
    from save_queue_fresh[OF q(2,3), of d] assms(1) q(1) db
    show "test_threaded nt s n h d free st" by (auto simp: test_threaded_def test_threaded_asserts_def)
  qed
qed

lemma production_tests_raise:
  "production_test_multithreaded_saving pre \<noteq> Inr ()"
  "production_test_logged_multithreaded_error pre \<noteq> Inr ()"
  by (simp_all add: production_test_multithreaded_saving_def production_test_logged_multithreaded_error_def
      split: sum.splits)

theorem threaded_test_passes_witness:
  "\<not> aborted (c_db ex_state) \<and> 0 < (4::nat) \<and>
   (\<exists>st. scrape_to_queue 3 (test_att 7 10) 4 [0..<10] (c_heap ex_state) (c_db ex_state) 100 st)"
proof -
  have a: "\<not> aborted (c_db ex_state)" by (simp add: ex_state_def)
  have b: "0 < (4::nat)" by simp
  from threaded_test_passes[OF a b, where s = 7 and n = 10 and h = "c_heap ex_state" and free = 100]
  have "\<exists>st. scrape_to_queue 3 (test_att 7 10) 4 [0..<10] (c_heap ex_state) (c_db ex_state) 100 st"
    by (rule conjunct1)
  with a b show ?thesis by blast
qed

lemma test_unit_state:
  assumes "\<not> aborted (c_db st)"
  shows "\<exists>st1 st2. harvest (test_scraper s n) u st = (st1, Inr [c_free st]) \<and>
           sio_st (Suc (Suc k)) test_chk [c_free st] st1 = Some (st2, [c_free st], None) \<and>
           c_free st2 = Suc (c_free st) \<and> \<not> aborted (c_db st2) \<and>
           log (c_db st2) = log (c_db st) @ [\<lparr>row_pk = next_pk (c_db st), row_parent = None, row_data = Headline u\<rparr>] \<and>
           next_pk (c_db st2) = Suc (next_pk (c_db st)) \<and>
           pk (c_heap st2 (c_free st)) = Some (next_pk (c_db st)) \<and> (\<forall>x. x \<noteq> c_free st \<longrightarrow> c_heap st2 x = c_heap st x)"
  using assms by (simp add: run_simps test_scraper_def test_chk_def)

lemma test_units_state:
  "\<not> aborted (c_db st) \<Longrightarrow>
     \<exists>st' rows. simple_units (Suc (Suc k)) test_chk (test_scraper s n) us st =
         Some (st', Inr [c_free st..<c_free st + length us]) \<and>
       \<not> aborted (c_db st') \<and> c_free st' = c_free st + length us \<and>
       next_pk (c_db st') = next_pk (c_db st) + length us \<and>
       log (c_db st') = log (c_db st) @ rows \<and> map row_pk rows = [next_pk (c_db st)..<next_pk (c_db st) + length us] \<and>
       map (\<lambda>x. pk (c_heap st' x)) [c_free st..<c_free st + length us] =
         map Some [next_pk (c_db st)..<next_pk (c_db st) + length us] \<and>
       (\<forall>x < c_free st. c_heap st' x = c_heap st x)"
proof (induction us arbitrary: st)
  case Nil
  then show ?case by simp
next
  case (Cons u us)
  from test_unit_state[OF Cons.prems, of s n u k] obtain st1 st2 where
    h: "harvest (test_scraper s n) u st = (st1, Inr [c_free st])" and
    sv: "sio_st (Suc (Suc k)) test_chk [c_free st] st1 = Some (st2, [c_free st], None)" and
    st2: "c_free st2 = Suc (c_free st)" "\<not> aborted (c_db st2)"
      "log (c_db st2) = log (c_db st) @ [\<lparr>row_pk = next_pk (c_db st), row_parent = None, row_data = Headline u\<rparr>]"
      "next_pk (c_db st2) = Suc (next_pk (c_db st))" "pk (c_heap st2 (c_free st)) = Some (next_pk (c_db st))"
      "\<forall>x. x \<noteq> c_free st \<longrightarrow> c_heap st2 x = c_heap st x"
    by blast
  from Cons.IH[OF st2(2)] obtain st' rows where
    r: "simple_units (Suc (Suc k)) test_chk (test_scraper s n) us st2 = Some (st', Inr [c_free st2..<c_free st2 + length us])"
    and st': "\<not> aborted (c_db st')" "c_free st' = c_free st2 + length us"
      "next_pk (c_db st') = next_pk (c_db st2) + length us"
      "log (c_db st') = log (c_db st2) @ rows" "map row_pk rows = [next_pk (c_db st2)..<next_pk (c_db st2) + length us]"
      "map (\<lambda>x. pk (c_heap st' x)) [c_free st2..<c_free st2 + length us] =
         map Some [next_pk (c_db st2)..<next_pk (c_db st2) + length us]"
      "\<forall>x < c_free st2. c_heap st' x = c_heap st2 x"
    by blast
  have up: "[c_free st] @ [Suc (c_free st)..<Suc (c_free st) + length us] = [c_free st..<c_free st + length (u # us)]"
    "next_pk (c_db st) # [Suc (next_pk (c_db st))..<Suc (next_pk (c_db st)) + length us] =
     [next_pk (c_db st)..<next_pk (c_db st) + length (u # us)]"
    by (simp_all add: upt_rec)
  have hd: "pk (c_heap st' (c_free st)) = Some (next_pk (c_db st))" using st'(7) st2(1,5) by simp
  have old: "\<forall>x < c_free st. c_heap st' x = c_heap st x" using st'(7) st2(1,6) by simp
  show ?case
    using h sv r st2 st' hd old up
    by (intro exI[of _ st'] exI[of _ "\<lparr>row_pk = next_pk (c_db st), row_parent = None, row_data = Headline u\<rparr> # rows"])
       (simp del: upt_Suc add: upt_rec[of "c_free st"] upt_rec[of "next_pk (c_db st)"])
qed

lemma simple_scrape_test:
  assumes "\<not> aborted (c_db st)"
  obtains st' rows where
    "scrape (simple_scrape (Suc (Suc k)) test_chk) False (One (test_scraper s n)) st ss =
       Some (st', ss\<lparr>members := (members ss)(s := members ss s @ [c_free st..<c_free st + n]),
                     index_dirty := insert s (index_dirty ss)\<rparr>, set [c_free st..<c_free st + n])"
    "new_rows (c_db st) (c_db st') = rows" "map row_pk rows = [next_pk (c_db st)..<next_pk (c_db st) + n]"
    "map (\<lambda>x. pk (c_heap st' x)) [c_free st..<c_free st + n] = map Some [next_pk (c_db st)..<next_pk (c_db st) + n]"
proof -
  from test_units_state[OF assms, of k s n "[0..<n]"] obtain st' rows where
    r: "simple_units (Suc (Suc k)) test_chk (test_scraper s n) [0..<n] st = Some (st', Inr [c_free st..<c_free st + n])"
    and l: "log (c_db st') = log (c_db st) @ rows" "map row_pk rows = [next_pk (c_db st)..<next_pk (c_db st) + n]"
      "map (\<lambda>x. pk (c_heap st' x)) [c_free st..<c_free st + n] = map Some [next_pk (c_db st)..<next_pk (c_db st) + n]"
    by auto
  have "get_units (test_scraper s n) = ([0..<n], None)" by (simp add: test_scraper_def)
  with r l show ?thesis
    by (intro that[of st' rows]) (simp_all add: scrape_def simple_scrape_def after_scrape_def test_scraper_def new_rows_def)
qed

text \<open>The three unit tests pass for every size, set and start state of the database.\<close>

lemma test_scraper_test_passes:
  assumes "\<not> aborted (c_db st)"
  shows "test_scraper_test (Suc (Suc k)) s n st ss"
proof -
  obtain st' rows where r: "scrape (simple_scrape (Suc (Suc k)) test_chk) False (One (test_scraper s n)) st ss =
       Some (st', ss\<lparr>members := (members ss)(s := members ss s @ [c_free st..<c_free st + n]),
                     index_dirty := insert s (index_dirty ss)\<rparr>, set [c_free st..<c_free st + n])"
    and nr: "new_rows (c_db st) (c_db st') = rows" and k: "map row_pk rows = [next_pk (c_db st)..<next_pk (c_db st) + n]"
    and p: "map (\<lambda>x. pk (c_heap st' x)) [c_free st..<c_free st + n] = map Some [next_pk (c_db st)..<next_pk (c_db st) + n]"
    by (rule simple_scrape_test[OF assms])
  have "(\<lambda>x. pk (c_heap st' x)) ` set [c_free st..<c_free st + n] = set (map Some [next_pk (c_db st)..<next_pk (c_db st) + n])"
    by (simp only: p[symmetric] set_map)
  moreover have "(\<lambda>r. Some (row_pk r)) ` set rows = set (map Some [next_pk (c_db st)..<next_pk (c_db st) + n])"
    by (simp only: k[symmetric] set_map image_image)
  moreover have "length rows = n" using arg_cong[OF k, of length] by simp
  ultimately show ?thesis using r nr
    by (simp add: test_scraper_test_def test_scraper_asserts_def test_scraper_def)
qed

lemma test_set_test_passes:
  assumes "\<not> aborted (c_db st)" and "members ss s = []"
  shows "test_set_test (Suc (Suc k)) s n st ss"
proof -
  obtain st' rows where r: "scrape (simple_scrape (Suc (Suc k)) test_chk) False (One (test_scraper s n)) st ss =
       Some (st', ss\<lparr>members := (members ss)(s := members ss s @ [c_free st..<c_free st + n]),
                     index_dirty := insert s (index_dirty ss)\<rparr>, set [c_free st..<c_free st + n])"
    and nr: "new_rows (c_db st) (c_db st') = rows" and k: "map row_pk rows = [next_pk (c_db st)..<next_pk (c_db st) + n]"
    by (rule simple_scrape_test[OF assms(1)])
  have "length rows = n" using arg_cong[OF k, of length] by simp
  with r nr assms(2) show ?thesis by (simp add: test_set_test_def)
qed

lemma test_rollback_test_passes:
  assumes "\<not> aborted (c_db st)" and "members ss s = []"
  shows "test_rollback_test (Suc (Suc k)) s st ss"
proof -
  from error_scraper_run[OF assms(1), of k s] obtain st' where
    r: "robust_scrape (Suc (Suc k)) test_chk (error_scraper s) st = Some (st', Inr [Suc (c_free st)])" by blast
  with assms(2) show ?thesis
    by (simp add: test_rollback_test_def scrape_def after_scrape_def error_scraper_def)
qed

lemma controller_tests_example:
  "test_scraper_test 2 7 3 ex_state ex_sets \<and> test_set_test 2 7 3 ex_state ex_sets \<and> test_rollback_test 2 7 ex_state ex_sets"
proof -
  have a: "\<not> aborted (c_db ex_state)" and m: "members ex_sets 7 = []" by (simp_all add: ex_state_def ex_sets_def)
  from test_scraper_test_passes[OF a, of 0 7 3 ex_sets] test_set_test_passes[OF a m, of 0 3]
    test_rollback_test_passes[OF a m, of 0]
  show ?thesis by (simp add: numeral_eq_Suc)
qed

end
