(* ===== verification/PoolEquiv.thy ===== *)
theory PoolEquiv
  imports ControllerTests
begin

text \<open>
  The pool-equivalence property of spec section 8 for \<open>ThreadedController\<close>
  (\<open>src/amcat/scraping/controller.py\<close>, lines 192--199) against
  \<open>SimpleController._scrape\<close> (112--121): with one worker and a harvester that answers
  every attempt at a unit alike, never fails, and makes articles without parents in
  their batch, every run of the pool that returns ends in exactly the state
  \<open>SimpleController\<close> reaches, and returns the same articles in the same order.  The
  proof runs both against one description of the intermediate states: the articles
  created so far (\<open>flat_heap\<close>) and the rows written so far (\<open>flat_db\<close>).
\<close>

section \<open>ThreadedController.scrape\<close>

text \<open>
  \<^verbatim>\<open>
  def scrape(self, scraper):
      result = []
      qpt = QueueProcessorThread(self.save, name="Storer", output_action=result.append)
      qpt.start()
      self._scrape_to_queue(scraper, qpt.input_queue)
      qpt.input_queue.done=True
      qpt.input_queue.join()
      return result
  \<close>
  A run of \<open>scrape\<close> on the units the harvester discovers, from the controller state
  \<open>st\<close>, that returns \<open>res\<close> and leaves \<open>st'\<close>: the pool goes from its start to a
  state in which \<open>join\<close> returns, by any interleaving.  Each attempt of the workers
  calls \<open>att\<close> (\<open>scraper.scrape_unit\<close>).
\<close>

definition threaded_scrape ::
  "nat \<Rightarrow> 'p chk \<Rightarrow> ('u \<Rightarrow> nat \<Rightarrow> 'p art_spec gen) \<Rightarrow> nat \<Rightarrow> ('u, 'p, 'dt) harvester \<Rightarrow>
     ('u, 'p) cstate \<Rightarrow> oid list \<Rightarrow> ('u, 'p) cstate \<Rightarrow> bool" where
  "threaded_scrape R chk att nthreads hv st res st' =
     (\<exists>s. (pstep R chk att)\<^sup>*\<^sup>* (pinit nthreads (fst (get_units hv)) (c_heap st) (c_db st) (c_free st)) s \<and>
          pfinal s \<and> res = p_out s \<and> st' = st\<lparr>c_heap := p_heap s, c_db := p_db s, c_free := p_free s\<rparr>)"

section \<open>Flat batches\<close>

text \<open>
  An article made with no parent in its batch, the articles a list of units makes, in
  order, and the heap and database after the first \<open>c\<close> of the articles \<open>S\<close>, created
  from address \<open>free\<close> on, were saved in order.
\<close>

definition flat_spec :: "'p art_spec \<Rightarrow> bool" where
  "flat_spec a = (s_parent a = SNone \<or> s_parent a = SNoAttr)"

definition unit_specs :: "('u, 'p, 'dt) harvester \<Rightarrow> 'u list \<Rightarrow> 'p art_spec list" where
  "unit_specs hv us = concat (map (\<lambda>u. fst (scrape_unit hv u)) us)"

definition flat_heap :: "'p heap \<Rightarrow> 'p db \<Rightarrow> oid \<Rightarrow> 'p art_spec list \<Rightarrow> nat \<Rightarrow> 'p heap" where
  "flat_heap h d free S c x =
     (if free \<le> x \<and> x < free + length S
      then \<lparr>pk = (if x < free + c then Some (next_pk d + (x - free)) else None),
            parent = spec_pref 0 (s_parent (S ! (x - free))), payload = s_payload (S ! (x - free))\<rparr>
      else h x)"

definition flat_db :: "'p db \<Rightarrow> 'p art_spec list \<Rightarrow> nat \<Rightarrow> 'p db" where
  "flat_db d S c =
     d\<lparr>log := log d @ map (\<lambda>j. \<lparr>row_pk = next_pk d + j, row_parent = None, row_data = s_payload (S ! j)\<rparr>) [0..<c],
       next_pk := next_pk d + c\<rparr>"

text \<open>
  The states of a one-worker pool on the units \<open>us\<close> of such a harvester: the first
  \<open>m\<close> units have made their articles, the committer has saved a prefix of them, the
  rest is on the queue or held by the worker, in creation order.
\<close>

fun w_units :: "'u list \<Rightarrow> nat \<Rightarrow> 'u wstate \<Rightarrow> (nat \<times> 'u) list \<Rightarrow> bool" where
  "w_units us m (Working i u k) units =
     (m < length us \<and> i = m \<and> u = us ! m \<and> units = enumerate (Suc m) (drop (Suc m) us))"
| "w_units us m Idle units = (units = enumerate m (drop m us))"
| "w_units us m (Emitting i xs) units = (units = enumerate m (drop m us))"

definition pool1_at ::
  "('u, 'p, 'dt) harvester \<Rightarrow> 'u list \<Rightarrow> 'p heap \<Rightarrow> 'p db \<Rightarrow> oid \<Rightarrow> nat \<Rightarrow> ('u, 'p) pstate \<Rightarrow> bool" where
  "pool1_at hv us h d free m s =
     (m \<le> length us \<and>
      p_heap s = flat_heap h d free (unit_specs hv (take m us)) (length (p_out s)) \<and>
      p_db s = flat_db d (unit_specs hv (take m us)) (length (p_out s)) \<and>
      p_free s = free + length (unit_specs hv (take m us)) \<and>
      p_out s @ p_results s @ wobjs (hd (p_workers s)) = [free..<free + length (unit_specs hv (take m us))] \<and>
      (\<exists>w. p_workers s = [w]) \<and> w_units us m (hd (p_workers s)) (p_units s) \<and>
      (p_done s \<longrightarrow> p_units s = [] \<and> hd (p_workers s) = Idle))"

section \<open>Example\<close>

definition ex_pool1 :: "(nat, tpay) pstate" where
  "ex_pool1 = pinit 1 [0] (c_heap ex_state) (c_db ex_state) 100"

text \<open>A harvester whose first unit always raises and whose second yields one article.\<close>

definition fail_first_scraper :: "(nat, tpay, unit) harvester" where
  "fail_first_scraper =
     \<lparr>get_units = ([0, 1], None),
      scrape_unit = (\<lambda>u. if u = 0 then ([], Some (ParseError ''bad page''))
                         else ([\<lparr>s_parent = SNone, s_payload = Headline u\<rparr>], None)),
      options_date = None, articleset = 7\<rparr>"

section \<open>Creating and saving flat articles\<close>

lemma alloc_heap:
  "fst (alloc h base i specs) x =
     (if base + i \<le> x \<and> x < base + i + length specs
      then \<lparr>pk = None, parent = spec_pref base (s_parent (specs ! (x - base - i))), payload = s_payload (specs ! (x - base - i))\<rparr>
      else h x)"
proof (induction specs arbitrary: h i)
  case Nil
  then show ?case by auto
next
  case (Cons a as)
  show ?case
    by (simp add: Cons.IH apfst_def map_prod_def split_def)
qed

lemma flat_heap_empty [simp]: "flat_heap h d free [] c = h"
  by (auto simp: flat_heap_def fun_eq_iff)

lemma flat_db_empty [simp]: "flat_db d [] 0 = d"
  by (simp add: flat_db_def)

lemma spec_pref_flat: "flat_spec a \<Longrightarrow> spec_pref b (s_parent a) = spec_pref 0 (s_parent a)"
  by (auto simp: flat_spec_def)

lemma alloc_flat:
  assumes "\<forall>a\<in>set specs. flat_spec a" and "c \<le> length S"
  shows "fst (alloc (flat_heap h d free S c) (free + length S) 0 specs) = flat_heap h d free (S @ specs) c"
proof
  fix x
  show "fst (alloc (flat_heap h d free S c) (free + length S) 0 specs) x = flat_heap h d free (S @ specs) c x"
  proof (cases "free + length S \<le> x \<and> x < free + length S + length specs")
    case True
    then have "specs ! (x - (free + length S)) \<in> set specs" by (intro nth_mem) linarith
    with assms have f: "flat_spec (specs ! (x - (free + length S)))" by blast
    from True assms(2) have "\<not> x < free + c" "\<not> x - free < length S" "x - free - length S = x - (free + length S)"
      by linarith+
    with True spec_pref_flat[OF f, of "free + length S"] show ?thesis
      by (simp add: alloc_heap flat_heap_def nth_append)
  next
    case False
    show ?thesis
    proof (cases "free \<le> x \<and> x < free + length S")
      case True
      then have "x - free < length S" by linarith
      with True False show ?thesis by (simp add: alloc_heap flat_heap_def nth_append)
    next
      case out: False
      with False have "\<not> (free \<le> x \<and> x < free + length (S @ specs))" by auto
      moreover from False have "\<not> (free + length S + 0 \<le> x \<and> x < free + length S + 0 + length specs)" by simp
      ultimately show ?thesis using out by (simp only: alloc_heap flat_heap_def if_False)
    qed
  qed
qed

lemma upt_split:
  assumes "xs @ y # zs = [a..<b]"
  shows "y = a + length xs" "a + length xs < b"
proof -
  have l: "length xs < b - a" using arg_cong[OF assms, of length] by simp
  have "(xs @ y # zs) ! length xs = [a..<b] ! length xs" using assms by simp
  with l show "y = a + length xs" by simp
  from l show "a + length xs < b" by simp
qed

text \<open>Saving the next flat article of the batch writes its row and gives it the next key.\<close>

lemma save_flat:
  assumes "c < length S" and "flat_spec (S ! c)" and "\<not> aborted d"
    and "chk (flat_db d S c) \<lparr>row_pk = next_pk d + c, row_parent = None, row_data = s_payload (S ! c)\<rparr> = None"
  shows "save chk (flat_heap h d free S c, flat_db d S c) (free + c) =
           ((flat_heap h d free S (Suc c), flat_db d S (Suc c)), Inr (Some (free + c)))"
proof -
  have hx: "flat_heap h d free S c (free + c) =
      \<lparr>pk = None, parent = spec_pref 0 (s_parent (S ! c)), payload = s_payload (S ! c)\<rparr>"
    using assms(1) by (simp add: flat_heap_def)
  have pf: "parent_fk H (spec_pref 0 (s_parent (S ! c))) = Inr None" for H :: "'a heap"
    using assms(2) by (auto simp: flat_spec_def)
  have hs: "(flat_heap h d free S c)(free + c := \<lparr>pk = Some (next_pk d + c), parent = spec_pref 0 (s_parent (S ! c)),
      payload = s_payload (S ! c)\<rparr>) = flat_heap h d free S (Suc c)"
    using assms(1) by (auto simp: fun_eq_iff flat_heap_def)
  have ds: "(flat_db d S c)\<lparr>next_pk := Suc (next_pk d + c),
      log := log (flat_db d S c) @ [\<lparr>row_pk = next_pk d + c, row_parent = None, row_data = s_payload (S ! c)\<rparr>]\<rparr> =
      flat_db d S (Suc c)"
    by (simp add: flat_db_def)
  show ?thesis
    using assms(3,4) hs ds
    by (simp add: save_def savepoint_def model_save_def db_write_def Let_def hx pf flat_db_def[of d S c])
qed

lemma flat_heap_parent:
  assumes "\<forall>a\<in>set S. flat_spec a" and "free \<le> x" and "x < free + length S"
  shows "parent (flat_heap h d free S c x) = PNone \<or> parent (flat_heap h d free S c x) = NoAttr"
proof -
  have "S ! (x - free) \<in> set S" using assms(2,3) by (intro nth_mem) linarith
  with assms(1) have "s_parent (S ! (x - free)) = SNone \<or> s_parent (S ! (x - free)) = SNoAttr"
    by (auto simp: flat_spec_def)
  with assms(2,3) show ?thesis by (auto simp: flat_heap_def)
qed

lemma adopt_flat:
  "\<forall>a\<in>set B. parent (h a) = PNone \<or> parent (h a) = NoAttr \<Longrightarrow> adopt h B u = (h, [])"
  by (induction B) auto

lemma roots_flat:
  "\<forall>a\<in>set B. parent (h a) = PNone \<or> parent (h a) = NoAttr \<Longrightarrow> roots h B = B"
  by (auto simp: roots_def intro!: filter_True)

text \<open>\<open>save_in_order\<close>'s loop on a batch of flat articles saves them in batch order.\<close>

lemma sio_loop_flat:
  assumes "\<forall>a\<in>set S. flat_spec a" and "\<not> aborted d"
    and "\<forall>a\<in>set S. \<forall>d' r. row_data r = s_payload a \<longrightarrow> chk d' r = None"
    and "\<forall>a\<in>set B. free \<le> a \<and> a < free + length S"
    and "c \<le> length S" and "length S - c < fuel"
  shows "sio_loop fuel chk B [free + c..<free + length S] (flat_heap h d free S c, flat_db d S c) =
           Some ((flat_heap h d free S (length S), flat_db d S (length S)), [free + c..<free + length S], None)"
  using assms(5,6)
proof (induction "length S - c" arbitrary: c fuel)
  case 0
  then obtain n where fu: "fuel = Suc n" by (cases fuel) auto
  from 0 have "c = length S" by linarith
  then show ?case by (simp add: fu)
next
  case (Suc k)
  then obtain n where fu: "fuel = Suc n" by (cases fuel) auto
  from Suc have c: "c < length S" by linarith
  have q: "[free + c..<free + length S] = (free + c) # [free + Suc c..<free + length S]"
    using upt_conv_Cons[of "free + c" "free + length S"] c by simp
  have f: "flat_spec (S ! c)" using assms(1) c by simp
  have sv: "save chk (flat_heap h d free S c, flat_db d S c) (free + c) =
      ((flat_heap h d free S (Suc c), flat_db d S (Suc c)), Inr (Some (free + c)))"
  proof (rule save_flat[OF c f assms(2)])
    have "S ! c \<in> set S" using c by simp
    with assms(3) have "\<forall>d' r. row_data r = s_payload (S ! c) \<longrightarrow> chk d' r = None" by blast
    then show "chk (flat_db d S c) \<lparr>row_pk = next_pk d + c, row_parent = None, row_data = s_payload (S ! c)\<rparr> = None"
      by simp
  qed
  have "\<forall>a\<in>set B. parent (flat_heap h d free S (Suc c) a) = PNone \<or> parent (flat_heap h d free S (Suc c) a) = NoAttr"
  proof
    fix a assume "a \<in> set B"
    with assms(4) have "free \<le> a" "a < free + length S" by auto
    then show "parent (flat_heap h d free S (Suc c) a) = PNone \<or> parent (flat_heap h d free S (Suc c) a) = NoAttr"
      by (rule flat_heap_parent[OF assms(1)])
  qed
  then have ad: "adopt (flat_heap h d free S (Suc c)) B (free + c) = (flat_heap h d free S (Suc c), [])"
    by (rule adopt_flat)
  have "length S - Suc c < n" using Suc.prems fu c by linarith
  with Suc.hyps(1)[of "Suc c" n] Suc.hyps(2) c
  have ih: "sio_loop n chk B [free + Suc c..<free + length S] (flat_heap h d free S (Suc c), flat_db d S (Suc c)) =
      Some ((flat_heap h d free S (length S), flat_db d S (length S)), [free + Suc c..<free + length S], None)"
    by simp
  show ?case unfolding fu q by (simp only: sio_loop.simps sv ad ih prod.case sum.case option.case list.map
      option.map append_Nil2)
qed

lemma upt_append: "a \<le> b \<Longrightarrow> b \<le> c \<Longrightarrow> [a..<b] @ [b..<c] = [a..<c]"
  by (metis le_add_diff_inverse upt_add_eq_append)

lemma unit_specs_simps [simp]:
  "unit_specs hv [] = []" "unit_specs hv (u # us) = fst (scrape_unit hv u) @ unit_specs hv us"
  by (simp_all add: unit_specs_def)

lemma unit_specs_take_Suc:
  "m < length us \<Longrightarrow> unit_specs hv (take (Suc m) us) = unit_specs hv (take m us) @ fst (scrape_unit hv (us ! m))"
  by (simp add: unit_specs_def take_Suc_conv_app_nth)

text \<open>
  \<open>SimpleController\<close>'s unit loop on a harvester whose units succeed with flat
  articles: each unit's articles are created and then saved, in order.
\<close>

lemma simple_units_flat:
  assumes "\<forall>a\<in>set (S @ unit_specs hv us). flat_spec a \<and> (\<forall>d' r. row_data r = s_payload a \<longrightarrow> chk d' r = None)"
    and "\<not> aborted d" and "\<forall>u\<in>set us. snd (scrape_unit hv u) = None \<and> length (fst (scrape_unit hv u)) < n"
    and "c_heap st = flat_heap h d free S (length S)" and "c_db st = flat_db d S (length S)"
    and "c_free st = free + length S"
  shows "\<exists>st'. simple_units n chk hv us st =
      Some (st', Inr [free + length S..<free + length (S @ unit_specs hv us)]) \<and>
    c_heap st' = flat_heap h d free (S @ unit_specs hv us) (length (S @ unit_specs hv us)) \<and>
    c_db st' = flat_db d (S @ unit_specs hv us) (length (S @ unit_specs hv us)) \<and>
    c_free st' = free + length (S @ unit_specs hv us) \<and> errors st' = errors st"
  using assms
proof (induction us arbitrary: S st)
  case Nil
  then show ?case by simp
next
  case (Cons u us)
  define specs where "specs = fst (scrape_unit hv u)"
  define S' where "S' = S @ specs"
  have su: "scrape_unit hv u = (specs, None)" using Cons.prems(3) by (simp add: specs_def prod_eq_iff)
  have fl: "\<forall>a\<in>set S'. flat_spec a \<and> (\<forall>d' r. row_data r = s_payload a \<longrightarrow> chk d' r = None)"
    using Cons.prems(1) unfolding S'_def specs_def by auto
  have al: "alloc (c_heap st) (c_free st) 0 specs = (flat_heap h d free S' (length S), [free + length S..<free + length S'])"
    using alloc_flat[where specs = specs and h = h and d = d and free = free and S = S and c = "length S"] alloc_objs[of "c_heap st" "c_free st" 0 specs] fl Cons.prems(4,6)
    by (simp add: S'_def prod_eq_iff add.assoc)
  define st1 where "st1 = st\<lparr>c_heap := flat_heap h d free S' (length S), c_free := free + length S'\<rparr>"
  have hv: "harvest hv u st = (st1, Inr [free + length S..<free + length S'])"
    using al Cons.prems(6) by (simp add: harvest_def su st1_def S'_def)
  have par: "\<forall>a\<in>set [free + length S..<free + length S']. parent (flat_heap h d free S' (length S) a) = PNone \<or>
      parent (flat_heap h d free S' (length S) a) = NoAttr"
    using flat_heap_parent[where S = S' and free = free] fl by auto
  have lp: "length S' - length S < n" using Cons.prems(3) by (simp add: S'_def specs_def)
  have "sio_loop n chk [free + length S..<free + length S'] [free + length S..<free + length S']
      (flat_heap h d free S' (length S), flat_db d S' (length S)) =
      Some ((flat_heap h d free S' (length S'), flat_db d S' (length S')), [free + length S..<free + length S'], None)"
    by (rule sio_loop_flat) (use fl Cons.prems(2) lp in \<open>auto simp: S'_def\<close>)
  moreover have "flat_db d S' (length S) = flat_db d S (length S)"
    by (simp add: flat_db_def S'_def nth_append)
  ultimately have sv: "sio_st n chk [free + length S..<free + length S'] st1 =
      Some (st1\<lparr>c_heap := flat_heap h d free S' (length S'), c_db := flat_db d S' (length S')\<rparr>,
            [free + length S..<free + length S'], None)"
    using Cons.prems(5) roots_flat[OF par]
    by (simp add: sio_st_def save_in_order_def st1_def)
  define st2 where "st2 = st1\<lparr>c_heap := flat_heap h d free S' (length S'), c_db := flat_db d S' (length S')\<rparr>"
  have "\<exists>st'. simple_units n chk hv us st2 = Some (st', Inr [free + length S'..<free + length (S' @ unit_specs hv us)]) \<and>
    c_heap st' = flat_heap h d free (S' @ unit_specs hv us) (length (S' @ unit_specs hv us)) \<and>
    c_db st' = flat_db d (S' @ unit_specs hv us) (length (S' @ unit_specs hv us)) \<and>
    c_free st' = free + length (S' @ unit_specs hv us) \<and> errors st' = errors st2"
    by (rule Cons.IH) (use Cons.prems in \<open>simp_all add: st2_def st1_def S'_def specs_def\<close>)
  then obtain st' where r: "simple_units n chk hv us st2 = Some (st', Inr [free + length S'..<free + length (S' @ unit_specs hv us)])"
    and st': "c_heap st' = flat_heap h d free (S' @ unit_specs hv us) (length (S' @ unit_specs hv us))"
      "c_db st' = flat_db d (S' @ unit_specs hv us) (length (S' @ unit_specs hv us))"
      "c_free st' = free + length (S' @ unit_specs hv us)" "errors st' = errors st2" by blast
  have up: "[free + length S..<free + length S'] @ [free + length S'..<free + length (S' @ unit_specs hv us)] =
      [free + length S..<free + length (S @ unit_specs hv (u # us))]"
    by (simp add: S'_def specs_def upt_append)
  have "simple_units n chk hv (u # us) st =
      Some (st', Inr ([free + length S..<free + length S'] @ [free + length S'..<free + length (S' @ unit_specs hv us)]))"
    using hv sv r by (simp add: st2_def)
  then show ?case using st' up by (simp add: S'_def specs_def st2_def st1_def)
qed

section \<open>The one-worker pool\<close>

lemma enumerate_drop_Cons:
  assumes "enumerate m (drop m us) = (i, u) # r"
  shows "m < length us" "i = m" "u = us ! m" "r = enumerate (Suc m) (drop (Suc m) us)"
proof -
  have m: "m < length us"
  proof (rule ccontr)
    assume "\<not> m < length us"
    then have "drop m us = []" by simp
    with assms show False by simp
  qed
  then have "drop m us = us ! m # drop (Suc m) us" by (rule Cons_nth_drop_Suc[symmetric])
  then have d2: "enumerate m (drop m us) = (m, us ! m) # enumerate (Suc m) (drop (Suc m) us)" by simp
  have e: "(i, u) # r = (m, us ! m) # enumerate (Suc m) (drop (Suc m) us)" by (rule trans[OF assms[symmetric] d2])
  from m show "m < length us" .
  from e show "i = m" "u = us ! m" "r = enumerate (Suc m) (drop (Suc m) us)" by simp_all
qed

lemma unit_specs_take_subset: "set (unit_specs hv (take m us)) \<subseteq> set (unit_specs hv us)"
  unfolding unit_specs_def using set_take_subset[of m us] by auto

lemma flat_db_append: "c \<le> length S \<Longrightarrow> flat_db d (S @ T) c = flat_db d S c"
  by (simp add: flat_db_def nth_append)

lemma pool1_init: "pool1_at hv us h d free 0 (pinit 1 us h d free)"
  by (simp add: pool1_at_def pinit_def)

lemma pool1_out_length:
  assumes "pool1_at hv us h d free m s"
  shows "length (p_out s) \<le> length (unit_specs hv (take m us))"
proof -
  from assms have "p_out s @ p_results s @ wobjs (hd (p_workers s)) = [free..<free + length (unit_specs hv (take m us))]"
    by (simp add: pool1_at_def)
  from arg_cong[OF this, of length] show ?thesis by simp
qed

lemma pool1_atD:
  assumes "pool1_at hv us h d free m s"
  shows "m \<le> length us" "p_heap s = flat_heap h d free (unit_specs hv (take m us)) (length (p_out s))"
    "p_db s = flat_db d (unit_specs hv (take m us)) (length (p_out s))"
    "p_free s = free + length (unit_specs hv (take m us))"
    "p_out s @ p_results s @ wobjs (hd (p_workers s)) = [free..<free + length (unit_specs hv (take m us))]"
    "\<exists>w. p_workers s = [w]" "w_units us m (hd (p_workers s)) (p_units s)"
    "p_done s \<Longrightarrow> p_units s = [] \<and> hd (p_workers s) = Idle"
  using assms unfolding pool1_at_def by blast+

lemma pool1_take:
  assumes inv: "pool1_at hv us h d free m s" and "w < length (p_workers s)" and "p_workers s ! w = Idle"
    and "p_units s = (i, u) # r"
  shows "pool1_at hv us h d free m (s\<lparr>p_units := r, p_workers := (p_workers s)[w := Working i u 1]\<rparr>)"
proof -
  note D = pool1_atD[OF inv]
  from D(6) obtain W where ws: "p_workers s = [W]" by blast
  with assms(2,3) have w: "w = 0" "W = Idle" by simp_all
  from D(7) ws w assms(4) have "enumerate m (drop m us) = (i, u) # r" by simp
  note e = enumerate_drop_Cons[OF this]
  from D(8) assms(4) have "\<not> p_done s" by auto
  with D ws w e show ?thesis by (simp add: pool1_at_def)
qed

lemma pool1_no_fail:
  assumes inv: "pool1_at hv us h d free m s" and "w < length (p_workers s)" and "p_workers s ! w = Working i u k"
    and "\<forall>u\<in>set us. snd (scrape_unit hv u) = None"
  shows "snd (scrape_unit hv u) = None"
proof -
  note D = pool1_atD[OF inv]
  from D(6) obtain W where ws: "p_workers s = [W]" by blast
  with assms(2,3) D(7) have "m < length us" "u = us ! m" by simp_all
  with assms(4) show ?thesis by simp
qed

lemma pool1_success:
  assumes inv: "pool1_at hv us h d free m s" and "w < length (p_workers s)" and "p_workers s ! w = Working i u k"
    and "scrape_unit hv u = (specs, None)" and "alloc (p_heap s) (p_free s) 0 specs = (h', objs)"
    and fl: "\<forall>a\<in>set (unit_specs hv us). flat_spec a"
  shows "pool1_at hv us h d free (Suc m)
    (s\<lparr>p_workers := (p_workers s)[w := Emitting i objs], p_heap := h', p_free := p_free s + length specs,
       p_owner := own, p_tries := tr\<rparr>)"
proof -
  note D = pool1_atD[OF inv]
  define S where "S = unit_specs hv (take m us)"
  from D(6) obtain W where ws: "p_workers s = [W]" by blast
  with assms(2,3) have w: "w = 0" "W = Working i u k" by simp_all
  from D(7) ws w have m: "m < length us" "i = m" "u = us ! m" "p_units s = enumerate (Suc m) (drop (Suc m) us)" by simp_all
  have sp: "specs = fst (scrape_unit hv (us ! m))" using assms(4) m(3) by simp
  have S': "unit_specs hv (take (Suc m) us) = S @ specs" using unit_specs_take_Suc[OF m(1)] sp by (simp add: S_def)
  have "set specs \<subseteq> set (unit_specs hv us)"
    using unit_specs_take_subset[of hv "Suc m" us] S' by auto
  with fl have fs: "\<forall>a\<in>set specs. flat_spec a" by blast
  have c: "length (p_out s) \<le> length S" using pool1_out_length[OF inv] by (simp add: S_def)
  have h': "h' = flat_heap h d free (S @ specs) (length (p_out s))"
    using alloc_flat[OF fs c, of h d free] assms(5) D(2,4) by (simp add: S_def)
  have o: "objs = [free + length S..<free + length S + length specs]"
    using alloc_objs[of "p_heap s" "p_free s" 0 specs] assms(5) D(4) by (simp add: S_def)
  have pr: "p_out s @ p_results s = [free..<free + length S]" using D(5) ws w by (simp add: S_def)
  have "(p_out s @ p_results s) @ objs = [free..<free + length (S @ specs)]"
    unfolding pr o using upt_append[of free "free + length S" "free + length S + length specs"] by (simp add: add.assoc)
  then have q: "p_out s @ p_results s @ objs = [free..<free + length (S @ specs)]" by simp
  have "\<not> p_done s" using D(8) ws w by auto
  with D ws w m S' h' q c show ?thesis
    by (simp add: pool1_at_def S_def flat_db_append)
qed

lemma pool1_emit:
  assumes inv: "pool1_at hv us h d free m s" and "w < length (p_workers s)" and "p_workers s ! w = Emitting i (x # xs)"
  shows "pool1_at hv us h d free m (s\<lparr>p_results := p_results s @ [x], p_workers := (p_workers s)[w := Emitting i xs]\<rparr>)"
proof -
  note D = pool1_atD[OF inv]
  from D(6) obtain W where ws: "p_workers s = [W]" by blast
  with assms(2,3) have w: "w = 0" "W = Emitting i (x # xs)" by simp_all
  have "\<not> p_done s" using D(8) ws w by auto
  with D ws w show ?thesis by (simp add: pool1_at_def)
qed

lemma pool1_finish:
  assumes inv: "pool1_at hv us h d free m s" and "w < length (p_workers s)" and "p_workers s ! w = Emitting i []"
  shows "pool1_at hv us h d free m (s\<lparr>p_workers := (p_workers s)[w := Idle]\<rparr>)"
proof -
  note D = pool1_atD[OF inv]
  from D(6) obtain W where ws: "p_workers s = [W]" by blast
  with assms(2,3) have w: "w = 0" "W = Emitting i []" by simp_all
  have "\<not> p_done s" using D(8) ws w by auto
  with D ws w show ?thesis by (simp add: pool1_at_def)
qed

lemma pool1_all_done:
  assumes inv: "pool1_at hv us h d free m s" and "p_units s = []" and "list_all (\<lambda>w. w = Idle) (p_workers s)"
  shows "pool1_at hv us h d free m (s\<lparr>p_done := True\<rparr>)"
proof -
  note D = pool1_atD[OF inv]
  from D(6) obtain W where ws: "p_workers s = [W]" by blast
  with assms(3) have "W = Idle" by simp
  with D ws assms(2) show ?thesis by (simp add: pool1_at_def)
qed

lemma pool1_commit:
  assumes inv: "pool1_at hv us h d free m s" and "p_results s = x # xs"
    and sv: "save chk (p_heap s, p_db s) x = ((h', d'), r)"
    and fl: "\<forall>a\<in>set (unit_specs hv us). flat_spec a \<and> (\<forall>d' r. row_data r = s_payload a \<longrightarrow> chk d' r = None)"
    and "\<not> aborted d"
  shows "pool1_at hv us h d free m
    (s\<lparr>p_results := xs, p_heap := h', p_db := d', p_out := p_out s @ (case r of Inr (Some v) \<Rightarrow> [v] | _ \<Rightarrow> [])\<rparr>)"
proof -
  note D = pool1_atD[OF inv]
  define S where "S = unit_specs hv (take m us)"
  define c where "c = length (p_out s)"
  have q: "p_out s @ x # (xs @ wobjs (hd (p_workers s))) = [free..<free + length S]"
    using D(5) assms(2) by (simp add: S_def)
  have x: "x = free + c" and c: "c < length S" using upt_split[OF q] by (simp_all add: c_def)
  have "S ! c \<in> set (unit_specs hv us)" using c unit_specs_take_subset[of hv m us] by (auto simp: S_def)
  with fl have f: "flat_spec (S ! c)" and ck: "\<forall>d' r. row_data r = s_payload (S ! c) \<longrightarrow> chk d' r = None" by blast+
  have "save chk (flat_heap h d free S c, flat_db d S c) (free + c) =
      ((flat_heap h d free S (Suc c), flat_db d S (Suc c)), Inr (Some (free + c)))"
    using save_flat[OF c f assms(5)] ck by simp
  with sv D(2,3) x have r: "h' = flat_heap h d free S (Suc c)" "d' = flat_db d S (Suc c)" "r = Inr (Some (free + c))"
    by (simp_all add: S_def c_def)
  have "p_out s @ [x] @ xs @ wobjs (hd (p_workers s)) = [free..<free + length S]" using q by simp
  with D r x show ?thesis by (simp add: pool1_at_def S_def c_def)
qed

lemma pool1_step:
  assumes st: "pstep R chk (\<lambda>u k. scrape_unit hv u) s s'" and inv: "pool1_at hv us h d free m s"
    and ok: "\<forall>u\<in>set us. snd (scrape_unit hv u) = None"
    and fl: "\<forall>a\<in>set (unit_specs hv us). flat_spec a \<and> (\<forall>d' r. row_data r = s_payload a \<longrightarrow> chk d' r = None)"
    and ab: "\<not> aborted d"
  shows "\<exists>m'. pool1_at hv us h d free m' s'"
  using st
proof (cases rule: pstep_cases)
  case (take w i u r)
  then show ?thesis using pool1_take[OF inv] by blast
next
  case (success w i u k specs h' objs)
  from fl have "\<forall>a\<in>set (unit_specs hv us). flat_spec a" by blast
  with success show ?thesis using pool1_success[OF inv] by blast
next
  case (retry w i u k specs e)
  with pool1_no_fail[OF inv retry(2,3) ok] show ?thesis by simp
next
  case (give_up w i u k specs e)
  with pool1_no_fail[OF inv give_up(2,3) ok] show ?thesis by simp
next
  case (emit w i x xs)
  then show ?thesis using pool1_emit[OF inv] by blast
next
  case (finish w i)
  then show ?thesis using pool1_finish[OF inv] by blast
next
  case all_done
  then show ?thesis using pool1_all_done[OF inv] by blast
next
  case (commit x xs h' d' r)
  then show ?thesis using pool1_commit[OF inv _ _ fl ab] by blast
qed

lemma pool1_reach:
  assumes "(pstep R chk (\<lambda>u k. scrape_unit hv u))\<^sup>*\<^sup>* (pinit 1 us h d free) s"
    and "\<forall>u\<in>set us. snd (scrape_unit hv u) = None"
    and "\<forall>a\<in>set (unit_specs hv us). flat_spec a \<and> (\<forall>d' r. row_data r = s_payload a \<longrightarrow> chk d' r = None)"
    and "\<not> aborted d"
  shows "\<exists>m. pool1_at hv us h d free m s"
  using assms(1)
proof (induction rule: rtranclp_induct)
  case base
  then show ?case using pool1_init by blast
next
  case (step s1 s2)
  then obtain m where "pool1_at hv us h d free m s1" by blast
  from pool1_step[OF step.hyps(2) this assms(2-4)] show ?case .
qed

lemma pool1_final:
  assumes inv: "pool1_at hv us h d free m s" and "pfinal s"
  shows "p_out s = [free..<free + length (unit_specs hv us)] \<and>
    p_heap s = flat_heap h d free (unit_specs hv us) (length (unit_specs hv us)) \<and>
    p_db s = flat_db d (unit_specs hv us) (length (unit_specs hv us)) \<and>
    p_free s = free + length (unit_specs hv us)"
proof -
  note D = pool1_atD[OF inv]
  from assms(2) have dn: "p_done s" "p_results s = []" by (simp_all add: pfinal_def)
  with D(8) have u: "p_units s = []" "hd (p_workers s) = Idle" by simp_all
  with D(7) have "enumerate m (drop m us) = []" by simp
  then have "length us \<le> m" by (cases "drop m us") auto
  with D(1) have tk: "take m us = us" by simp
  from D(5) dn u tk have o: "p_out s = [free..<free + length (unit_specs hv us)]" by simp
  then have "length (p_out s) = length (unit_specs hv us)" by simp
  with o D(2-4) tk show ?thesis by simp
qed

section \<open>Pool equivalence\<close>

text \<open>
  C20. Pool equivalence (spec section 8): for a harvester that answers every attempt at a
  unit alike, whose discovery and units never raise and whose articles have no parent
  in their batch and are accepted by the database, every run of
  \<open>ThreadedController.scrape\<close> with one worker that returns leaves exactly the heap,
  transaction and next free object that \<open>SimpleController._scrape\<close> leaves, and returns
  the same articles in the same order (given the saver enough fuel for a unit).
\<close>

theorem pool_equivalence:
  assumes "\<forall>u k. att u k = scrape_unit hv u" and "snd (get_units hv) = None"
    and "\<forall>u\<in>set (fst (get_units hv)). snd (scrape_unit hv u) = None \<and> length (fst (scrape_unit hv u)) < n"
    and "\<forall>a\<in>set (unit_specs hv (fst (get_units hv))). flat_spec a \<and> (\<forall>d r. row_data r = s_payload a \<longrightarrow> chk d r = None)"
    and "\<not> aborted (c_db st)"
    and "threaded_scrape R chk att 1 hv st res st'"
  shows "simple_scrape n chk hv st = Some (st', Inr res)"
proof -
  obtain us where g: "get_units hv = (us, None)" using assms(2) by (cases "get_units hv") auto
  have att: "att = (\<lambda>u k. scrape_unit hv u)" using assms(1) by (simp add: fun_eq_iff)
  from assms(6) obtain s where
    r: "(pstep R chk att)\<^sup>*\<^sup>* (pinit 1 us (c_heap st) (c_db st) (c_free st)) s" and f: "pfinal s"
    and res: "res = p_out s" and st': "st' = st\<lparr>c_heap := p_heap s, c_db := p_db s, c_free := p_free s\<rparr>"
    by (auto simp: threaded_scrape_def g)
  have ok: "\<forall>u\<in>set us. snd (scrape_unit hv u) = None" using assms(3) g by simp
  have fl: "\<forall>a\<in>set (unit_specs hv us). flat_spec a \<and> (\<forall>d r. row_data r = s_payload a \<longrightarrow> chk d r = None)"
    using assms(4) g by simp
  from pool1_reach[OF r[unfolded att] ok fl assms(5)] obtain m
    where "pool1_at hv us (c_heap st) (c_db st) (c_free st) m s" by blast
  note pf = pool1_final[OF this f]
  have a1: "\<forall>a\<in>set ([] @ unit_specs hv us). flat_spec a \<and> (\<forall>d r. row_data r = s_payload a \<longrightarrow> chk d r = None)"
    using fl by simp
  have a3: "\<forall>u\<in>set us. snd (scrape_unit hv u) = None \<and> length (fst (scrape_unit hv u)) < n" using assms(3) g by simp
  have a4: "c_heap st = flat_heap (c_heap st) (c_db st) (c_free st) [] (length [])" by simp
  have a5: "c_db st = flat_db (c_db st) [] (length [])" by simp
  have a6: "c_free st = c_free st + length []" by simp
  note simple_units_flat[OF a1 assms(5) a3 a4 a5 a6]
  then obtain st'' where u: "simple_units n chk hv us st = Some (st'', Inr [c_free st..<c_free st + length (unit_specs hv us)])"
    and e: "c_heap st'' = p_heap s" "c_db st'' = p_db s" "c_free st'' = p_free s" "errors st'' = errors st"
    using pf by auto
  have "st'' = st'" unfolding st' by (rule cstate.equality) (simp_all add: e)
  with u pf res show ?thesis by (simp add: simple_scrape_def g)
qed

lemma ex_pool1_run:
  "\<exists>s. (pstep 3 test_chk (test_att 7 1))\<^sup>*\<^sup>* ex_pool1 s \<and> pfinal s"
  unfolding ex_pool1_def pinit_def
  apply (rule exI, rule conjI)
   apply (rule converse_rtranclp_into_rtranclp)
    apply (rule pstep_take[where w = 0 and i = 0 and u = 0 and us = "[]"]; simp)
   apply (rule converse_rtranclp_into_rtranclp)
    apply (rule pstep_success[where w = 0 and i = 0 and u = 0 and k = 1
      and specs = "[\<lparr>s_parent = SNone, s_payload = Headline 0\<rparr>]"
      and h' = "fst (alloc (c_heap ex_state) 100 0 [\<lparr>s_parent = SNone, s_payload = Headline 0\<rparr>])"
      and objs = "[100]"]; simp add: test_att_def test_scraper_def)
   apply (rule converse_rtranclp_into_rtranclp)
    apply (rule pstep_emit[where w = 0 and i = 0 and x = 100 and xs = "[]"]; simp)
   apply (rule converse_rtranclp_into_rtranclp)
    apply (rule pstep_finish[where w = 0 and i = 0]; simp)
   apply (rule converse_rtranclp_into_rtranclp)
    apply (rule pstep.all_done; simp)
   apply (rule converse_rtranclp_into_rtranclp)
    apply (rule pstep.commit[where x = 100 and xs = "[]" and h' = "fst (fst (save test_chk ((c_heap ex_state)(100 := \<lparr>pk = None, parent = PNone, payload = Headline 0\<rparr>), c_db ex_state) 100))"
      and d' = "snd (fst (save test_chk ((c_heap ex_state)(100 := \<lparr>pk = None, parent = PNone, payload = Headline 0\<rparr>), c_db ex_state) 100))" and r = "Inr (Some 100)"];
      simp add: save_def ex_state_def savepoint_def model_save_def test_chk_def db_write_def)
   apply (rule rtranclp.rtrancl_refl)
  apply (simp add: pfinal_def)
  done

theorem pool_equivalence_witness:
  "\<exists>res st'. threaded_scrape 3 test_chk (test_att 7 1) 1 (test_scraper 7 1) ex_state res st' \<and>
     simple_scrape 2 test_chk (test_scraper 7 1) ex_state = Some (st', Inr res)"
proof -
  from ex_pool1_run obtain s where r: "(pstep 3 test_chk (test_att 7 1))\<^sup>*\<^sup>* ex_pool1 s" and f: "pfinal s" by blast
  have c: "c_free ex_state = 100" by (simp add: ex_state_def)
  have t: "threaded_scrape 3 test_chk (test_att 7 1) 1 (test_scraper 7 1) ex_state (p_out s)
      (ex_state\<lparr>c_heap := p_heap s, c_db := p_db s, c_free := p_free s\<rparr>)"
    using r f c by (auto simp: threaded_scrape_def test_scraper_def ex_pool1_def)
  have h1: "\<forall>u k. test_att 7 1 u k = scrape_unit (test_scraper 7 1) u" by (simp add: test_att_def)
  have h2: "snd (get_units (test_scraper 7 1)) = None" by (simp add: test_scraper_def)
  have h3: "\<forall>u\<in>set (fst (get_units (test_scraper 7 1))). snd (scrape_unit (test_scraper 7 1) u) = None \<and>
      length (fst (scrape_unit (test_scraper 7 1) u)) < 2" by (simp add: test_scraper_def)
  have h4: "\<forall>a\<in>set (unit_specs (test_scraper 7 1) (fst (get_units (test_scraper 7 1)))).
      flat_spec a \<and> (\<forall>d r. row_data r = s_payload a \<longrightarrow> test_chk d r = None)"
    by (simp add: test_scraper_def unit_specs_def flat_spec_def test_chk_def)
  have h5: "\<not> aborted (c_db ex_state)" by (simp add: ex_state_def)
  from t pool_equivalence[OF h1 h2 h3 h4 h5 t] show ?thesis by blast
qed

text \<open>
  Without the condition that units do not raise, the two controllers differ: on
  \<open>fail_first_scraper\<close> \<open>SimpleController\<close> aborts at the first unit and writes
  nothing, while the pool retries it three times, gives it up, and saves the article
  of the second unit.
\<close>

lemma fail_first_pool_run:
  "\<exists>s. (pstep 3 test_chk (\<lambda>u k. scrape_unit fail_first_scraper u))\<^sup>*\<^sup>*
     (pinit 1 [0, 1] (c_heap ex_state) (c_db ex_state) 100) s \<and> pfinal s \<and> p_out s = [100] \<and>
     length (log (p_db s)) = 1"
  unfolding pinit_def
  apply (rule exI, rule conjI)
   apply (rule converse_rtranclp_into_rtranclp)
    apply (rule pstep_take[where w = 0 and i = 0 and u = 0 and us = "[(1, 1)]"]; simp)
   apply (rule converse_rtranclp_into_rtranclp)
    apply (rule pstep_retry[where w = 0 and i = 0 and u = 0 and k = 1 and specs = "[]" and e = "ParseError ''bad page''"];
      simp add: fail_first_scraper_def)
   apply (rule converse_rtranclp_into_rtranclp)
    apply (rule pstep_retry[where w = 0 and i = 0 and u = 0 and k = 2 and specs = "[]" and e = "ParseError ''bad page''"];
      simp add: fail_first_scraper_def)
   apply (rule converse_rtranclp_into_rtranclp)
    apply (rule pstep_give_up[where w = 0 and i = 0 and u = 0 and k = 3 and specs = "[]" and e = "ParseError ''bad page''"];
      simp add: fail_first_scraper_def)
   apply (rule converse_rtranclp_into_rtranclp)
    apply (rule pstep_take[where w = 0 and i = 1 and u = 1 and us = "[]"]; simp)
   apply (rule converse_rtranclp_into_rtranclp)
    apply (rule pstep_success[where w = 0 and i = 1 and u = 1 and k = 1
      and specs = "[\<lparr>s_parent = SNone, s_payload = Headline 1\<rparr>]"
      and h' = "fst (alloc (c_heap ex_state) 100 0 [\<lparr>s_parent = SNone, s_payload = Headline 1\<rparr>])"
      and objs = "[100]"]; simp add: fail_first_scraper_def)
   apply (rule converse_rtranclp_into_rtranclp)
    apply (rule pstep_emit[where w = 0 and i = 1 and x = 100 and xs = "[]"]; simp)
   apply (rule converse_rtranclp_into_rtranclp)
    apply (rule pstep_finish[where w = 0 and i = 1]; simp)
   apply (rule converse_rtranclp_into_rtranclp)
    apply (rule pstep.all_done; simp)
   apply (rule converse_rtranclp_into_rtranclp)
    apply (rule pstep.commit[where x = 100 and xs = "[]" and h' = "fst (fst (save test_chk ((c_heap ex_state)(100 := \<lparr>pk = None, parent = PNone, payload = Headline 1\<rparr>), c_db ex_state) 100))"
      and d' = "snd (fst (save test_chk ((c_heap ex_state)(100 := \<lparr>pk = None, parent = PNone, payload = Headline 1\<rparr>), c_db ex_state) 100))" and r = "Inr (Some 100)"];
      simp add: save_def ex_state_def savepoint_def model_save_def test_chk_def db_write_def)
   apply (rule rtranclp.rtrancl_refl)
  apply (simp add: pfinal_def save_def ex_state_def savepoint_def model_save_def test_chk_def db_write_def)
  done

lemma pool_differs_on_failure:
  "(\<exists>st'. simple_scrape 2 test_chk fail_first_scraper ex_state = Some (st', Inl (ParseError ''bad page'')) \<and>
      log (c_db st') = []) \<and>
   (\<exists>st'. threaded_scrape 3 test_chk (\<lambda>u k. scrape_unit fail_first_scraper u) 1 fail_first_scraper ex_state [100] st' \<and>
      length (log (c_db st')) = 1)"
proof
  show "\<exists>st'. simple_scrape 2 test_chk fail_first_scraper ex_state = Some (st', Inl (ParseError ''bad page'')) \<and>
      log (c_db st') = []"
    by (simp add: simple_scrape_def fail_first_scraper_def run_simps ex_state_def)
next
  from fail_first_pool_run obtain s where
    r: "(pstep 3 test_chk (\<lambda>u k. scrape_unit fail_first_scraper u))\<^sup>*\<^sup>* (pinit 1 [0, 1] (c_heap ex_state) (c_db ex_state) 100) s"
    and f: "pfinal s" "p_out s = [100]" "length (log (p_db s)) = 1" by blast
  have "c_free ex_state = 100" by (simp add: ex_state_def)
  with r f show "\<exists>st'. threaded_scrape 3 test_chk (\<lambda>u k. scrape_unit fail_first_scraper u) 1 fail_first_scraper ex_state [100] st' \<and>
      length (log (c_db st')) = 1"
    by (intro exI[of _ "ex_state\<lparr>c_heap := p_heap s, c_db := p_db s, c_free := p_free s\<rparr>"])
       (auto simp: threaded_scrape_def fail_first_scraper_def)
qed

end
