(* ===== verification/FlatSave.thy ===== *)
theory FlatSave
  imports PoolEquiv
begin

text \<open>
  Saving articles without parents in their batch that the database accepts, shared by
  the pooled controller's retry budget (\<open>PoolRetry\<close>) and the isolating
  controller (\<open>Isolation\<close>): \<open>Controller.save\<close>
  (\<open>src/amcat/scraping/controller.py\<close>, lines 78--90) never changes a payload or a
  parent, saves such an article, and \<open>save_in_order\<close> (92--108) then saves a whole
  batch in batch order.
\<close>

section \<open>Accepted articles\<close>

text \<open>
  The harvester's side of the contract: every attempt makes articles without parents
  in their batch, and the database accepts each of them.
\<close>

definition flat_accepted :: "'p chk \<Rightarrow> ('u \<Rightarrow> nat \<Rightarrow> 'p art_spec gen) \<Rightarrow> bool" where
  "flat_accepted chk att =
     (\<forall>u k. \<forall>a\<in>set (fst (att u k)). flat_spec a \<and> (\<forall>d r. row_data r = s_payload a \<longrightarrow> chk d r = None))"

definition unsaved_ok :: "'p chk \<Rightarrow> 'p article \<Rightarrow> bool" where
  "unsaved_ok chk a = ((parent a = PNone \<or> parent a = NoAttr) \<and> (\<forall>d r. row_data r = payload a \<longrightarrow> chk d r = None))"

section \<open>Lemmas\<close>

lemma save_keeps:
  "save chk (h, d) x = ((h', d'), r) \<Longrightarrow> payload (h' y) = payload (h y) \<and> parent (h' y) = parent (h y)"
  by (auto simp: save_def savepoint_def model_save_def Let_def
      split: sum.splits option.splits prod.splits if_splits)

lemma save_accepted:
  assumes "save chk (h, d) x = ((h', d'), r)" "\<not> aborted d" "unsaved_ok chk (h x)"
  shows "r = Inr (Some x) \<and> \<not> aborted d'"
proof -
  from assms(3) have p: "parent_fk h (parent (h x)) = Inr None"
    by (auto simp: unsaved_ok_def)
  from assms(3) have c: "chk d \<lparr>row_pk = k, row_parent = None, row_data = payload (h x)\<rparr> = None" for k
    by (simp add: unsaved_ok_def)
  from assms(1,2) show ?thesis
    by (auto simp: save_def savepoint_def model_save_def db_write_def Let_def p c split: option.splits)
qed

lemma flat_accepted_specs:
  "flat_accepted chk att \<Longrightarrow> att u k = (specs, ex) \<Longrightarrow>
     \<forall>a\<in>set specs. flat_spec a \<and> (\<forall>d r. row_data r = s_payload a \<longrightarrow> chk d r = None)"
  unfolding flat_accepted_def by (metis fst_conv)

lemma alloc_payloads:
  assumes "alloc h base 0 specs = (h', objs)"
  shows "map (\<lambda>x. payload (h' x)) objs = map s_payload specs"
proof -
  have o: "objs = [base..<base + length specs]" using alloc_objs[of h base 0 specs] assms by simp
  have h': "h' = fst (alloc h base 0 specs)" using assms by simp
  show ?thesis
    by (rule nth_equalityI) (simp_all add: o h' alloc_heap)
qed

lemma alloc_unsaved:
  assumes "alloc h base 0 specs = (h', objs)" "x \<in> set objs"
    and "\<forall>a\<in>set specs. flat_spec a \<and> (\<forall>d r. row_data r = s_payload a \<longrightarrow> chk d r = None)"
  shows "unsaved_ok chk (h' x)"
proof -
  have o: "objs = [base..<base + length specs]" using alloc_objs[of h base 0 specs] assms(1) by simp
  with assms(2) have x: "base \<le> x" "x < base + length specs" by auto
  then have "specs ! (x - base) \<in> set specs" by (intro nth_mem) linarith
  with assms(3) have "flat_spec (specs ! (x - base))"
    "\<forall>d r. row_data r = s_payload (specs ! (x - base)) \<longrightarrow> chk d r = None" by blast+
  moreover have "h' x = \<lparr>pk = None, parent = spec_pref base (s_parent (specs ! (x - base))),
      payload = s_payload (specs ! (x - base))\<rparr>"
    using alloc_heap[of h base 0 specs x] assms(1) x by simp
  ultimately show ?thesis by (auto simp: unsaved_ok_def flat_spec_def)
qed

lemma save_row:
  "save chk (h, d) u = ((h', d'), Inr (Some v)) \<Longrightarrow> \<exists>r. log d' = log d @ [r] \<and> row_data r = payload (h u)"
  by (drule save_Some) (auto simp: Let_def)

lemma unsaved_ok_keep:
  "payload a' = payload a \<Longrightarrow> parent a' = parent a \<Longrightarrow> unsaved_ok chk a' = unsaved_ok chk a"
  by (simp add: unsaved_ok_def)

text \<open>
  \<open>save_in_order\<close>'s loop on a batch of such articles: each article of the work list
  is saved in turn, one row each, and no child is found.
\<close>

lemma sio_loop_accepted:
  assumes "\<forall>a\<in>set B. unsaved_ok chk (h a)" "set q \<subseteq> set B" "length q < fuel" "\<not> aborted d"
  shows "\<exists>h' d' rows. sio_loop fuel chk B q (h, d) = Some ((h', d'), q, None) \<and> \<not> aborted d' \<and>
           (\<forall>y. payload (h' y) = payload (h y) \<and> parent (h' y) = parent (h y)) \<and>
           log d' = log d @ rows \<and> map row_data rows = map (\<lambda>x. payload (h x)) q"
  using assms
proof (induction q arbitrary: h d fuel)
  case Nil
  then obtain m where "fuel = Suc m" by (cases fuel) auto
  with Nil.prems(4) show ?case by simp
next
  case (Cons u q)
  then obtain m where fu: "fuel = Suc m" by (cases fuel) auto
  obtain h1 d1 r where sv: "save chk (h, d) u = ((h1, d1), r)" by (metis prod.exhaust)
  have "unsaved_ok chk (h u)" using Cons.prems(1,2) by auto
  with save_accepted[OF sv Cons.prems(4)] have r: "r = Inr (Some u)" "\<not> aborted d1" by simp_all
  have k: "payload (h1 y) = payload (h y)" "parent (h1 y) = parent (h y)" for y
    using save_keeps[OF sv] by simp_all
  from save_row[of chk h d u h1 d1 u] sv r obtain row where
    row: "log d1 = log d @ [row]" "row_data row = payload (h u)" by auto
  have B1: "\<forall>a\<in>set B. unsaved_ok chk (h1 a)" using Cons.prems(1) unsaved_ok_keep[OF k] by simp
  then have "\<forall>a\<in>set B. parent (h1 a) = PNone \<or> parent (h1 a) = NoAttr" by (simp add: unsaved_ok_def)
  then have ad: "adopt h1 B u = (h1, [])" by (rule adopt_flat)
  from Cons.IH[OF B1, of m d1] Cons.prems(2,3) r(2) fu obtain h' d' rows where
    ih: "sio_loop m chk B q (h1, d1) = Some ((h', d'), q, None)" "\<not> aborted d'"
      "\<forall>y. payload (h' y) = payload (h1 y) \<and> parent (h' y) = parent (h1 y)"
      "log d' = log d1 @ rows" "map row_data rows = map (\<lambda>x. payload (h1 x)) q" by auto
  have "sio_loop fuel chk B (u # q) (h, d) = Some ((h', d'), u # q, None)"
    using sv r ad ih(1) by (simp add: fu)
  moreover have "map row_data (row # rows) = map (\<lambda>x. payload (h x)) (u # q)" using row ih(5) k by simp
  ultimately show ?case using ih(2,3,4) row(1) k by auto
qed

end
