(* ===== verification/PoolRetry.thy ===== *)
theory PoolRetry
  imports FlatSave
begin

text \<open>
  The retry-budget property of spec section 8 for \<open>ThreadedController\<close>
  (\<open>src/amcat/scraping/controller.py\<close>, lines 182--199, \<open>retry_exceptions=3\<close>), for any
  number of workers and every interleaving: when the pool has finished, the articles
  the committer saved for a unit are exactly those of the unit's first attempt that
  did not raise within the budget, each once and in creation order, and none when
  every attempt raised; and the unit is logged as failed exactly in that last case.  The harvester's articles are taken without parents in their
  batch and accepted by the database, so that every save succeeds.
\<close>

section \<open>The promise\<close>

text \<open>
  The outcome the retry policy promises for a unit (spec sections 4.4 and 5): the first
  attempt, among the \<open>max 1 R\<close> allowed, that does not raise, and the articles it
  produced.
\<close>

definition first_ok :: "nat \<Rightarrow> ('u \<Rightarrow> nat \<Rightarrow> 'p art_spec gen) \<Rightarrow> 'u \<Rightarrow> nat option" where
  "first_ok R att u = find (\<lambda>k. snd (att u k) = None) [1..<Suc (max 1 R)]"

definition unit_yield :: "nat \<Rightarrow> ('u \<Rightarrow> nat \<Rightarrow> 'p art_spec gen) \<Rightarrow> 'u \<Rightarrow> 'p art_spec list" where
  "unit_yield R att u = (case first_ok R att u of None \<Rightarrow> [] | Some k \<Rightarrow> fst (att u k))"

section \<open>The invariant\<close>

text \<open>
  The objects in the pipeline: those not yet saved (queued or held by an emitting
  worker) and, before them, those saved.  A unit is busy while it is queued or being
  attempted; \<open>upay\<close> is the payloads of the unit's objects in the pipeline, in order.
\<close>

definition pending :: "('u, 'p) pstate \<Rightarrow> oid list" where
  "pending s = p_results s @ concat (map wobjs (p_workers s))"

definition pipe :: "('u, 'p) pstate \<Rightarrow> oid list" where
  "pipe s = p_out s @ pending s"

definition busy :: "('u, 'p) pstate \<Rightarrow> nat \<Rightarrow> bool" where
  "busy s i = (i \<in> fst ` set (p_units s) \<or> (\<exists>u k. Working i u k \<in> set (p_workers s)))"

definition upay :: "('u, 'p) pstate \<Rightarrow> nat \<Rightarrow> 'p list" where
  "upay s i = map (\<lambda>x. payload (p_heap s x)) (filter (\<lambda>x. p_owner s x = Some i) (pipe s))"

text \<open>
  A unit's promise holds in the pipeline: a busy unit has no objects there, a unit
  that is done has there the articles its first good attempt made.
\<close>

definition unit_ok :: "nat \<Rightarrow> ('u \<Rightarrow> nat \<Rightarrow> 'p art_spec gen) \<Rightarrow> 'u list \<Rightarrow> ('u, 'p) pstate \<Rightarrow> nat \<Rightarrow> bool" where
  "unit_ok R att us s i = (upay s i = (if busy s i then [] else map s_payload (unit_yield R att (us ! i))))"

text \<open>
  A unit is logged as failed exactly when it is done and every attempt within the budget
  raised.
\<close>

definition fail_ok :: "nat \<Rightarrow> ('u \<Rightarrow> nat \<Rightarrow> 'p art_spec gen) \<Rightarrow> 'u list \<Rightarrow> ('u, 'p) pstate \<Rightarrow> nat \<Rightarrow> bool" where
  "fail_ok R att us s i = ((i, us ! i) \<in> set (p_failed s) \<longleftrightarrow> \<not> busy s i \<and> first_ok R att (us ! i) = None)"

text \<open>A worker at attempt \<open>k\<close> of unit \<open>i\<close> holds that unit and saw attempts \<open>1..k-1\<close> raise.\<close>

fun wfail :: "('u \<Rightarrow> nat \<Rightarrow> 'p art_spec gen) \<Rightarrow> 'u list \<Rightarrow> 'u wstate \<Rightarrow> bool" where
  "wfail att us (Working i u k) = (i < length us \<and> u = us ! i \<and> (\<forall>j. 1 \<le> j \<longrightarrow> j < k \<longrightarrow> snd (att u j) \<noteq> None))"
| "wfail att us _ = True"

definition rb_inv :: "nat \<Rightarrow> 'p chk \<Rightarrow> ('u \<Rightarrow> nat \<Rightarrow> 'p art_spec gen) \<Rightarrow> 'u list \<Rightarrow> ('u, 'p) pstate \<Rightarrow> bool" where
  "rb_inv R chk att us s =
     ((\<forall>iu\<in>set (p_units s). fst iu < length us \<and> snd iu = us ! fst iu) \<and>
      (\<forall>v\<in>set (p_workers s). wfail att us v) \<and>
      distinct (pipe s) \<and>
      (\<forall>x\<in>set (pending s). unsaved_ok chk (p_heap s x)) \<and>
      \<not> aborted (p_db s) \<and>
      (\<forall>i < length us. unit_ok R att us s i) \<and> (\<forall>i < length us. fail_ok R att us s i))"

section \<open>The promise, computed\<close>

lemma first_ok_Some:
  assumes "1 \<le> k" "k \<le> max 1 R" "snd (att u k) = None" "\<forall>j. 1 \<le> j \<longrightarrow> j < k \<longrightarrow> snd (att u j) \<noteq> None"
  shows "first_ok R att u = Some k"
proof -
  have "k - 1 < length [1..<Suc (max 1 R)]" using assms(1,2) by simp
  moreover have "[1..<Suc (max 1 R)] ! (k - 1) = k" using assms(1,2) by (subst nth_upt) auto
  moreover have "\<forall>j < k - 1. snd (att u ([1..<Suc (max 1 R)] ! j)) \<noteq> None"
    using assms(1,2,4) by (auto simp: nth_upt simp del: upt_Suc)
  ultimately show ?thesis using assms(3) unfolding first_ok_def find_Some_iff by (intro exI[of _ "k - 1"]) auto
qed

lemma first_ok_None:
  "\<forall>j. 1 \<le> j \<longrightarrow> j \<le> max 1 R \<longrightarrow> snd (att u j) \<noteq> None \<Longrightarrow> first_ok R att u = None"
  by (auto simp: first_ok_def find_None_iff)

section \<open>Lists of the pipeline\<close>

lemma filter_swap:
  "(\<forall>y\<in>set A. \<not> P y) \<or> \<not> P x \<Longrightarrow> filter P (C @ [x] @ A @ D) = filter P (C @ A @ x # D)"
  by (auto simp: filter_empty_conv)

lemma concat_map_split:
  "w < length ws \<Longrightarrow>
     concat (map f ws) = concat (map f (take w ws)) @ f (ws ! w) @ concat (map f (drop (Suc w) ws))"
  by (metis append_take_drop_id Cons_nth_drop_Suc concat.simps(2) concat_append map_append list.simps(9))

lemma concat_map_update_split:
  "w < length ws \<Longrightarrow>
     concat (map f (ws[w := v])) = concat (map f (take w ws)) @ f v @ concat (map f (drop (Suc w) ws))"
  using concat_map_split[of w "ws[w := v]" f] by simp

lemma ball_update:
  "\<forall>x\<in>set ws. P x \<Longrightarrow> P v \<Longrightarrow> \<forall>x\<in>set (ws[w := v]). P x"
  using set_update_subset_insert[of ws w v] by blast

lemma in_set_update_neq:
  "w < length ws \<Longrightarrow> y \<noteq> v \<Longrightarrow> y \<noteq> ws ! w \<Longrightarrow> y \<in> set (ws[w := v]) \<longleftrightarrow> y \<in> set ws"
  by (auto simp: in_set_conv_nth nth_list_update)

section \<open>The invariant, piecewise\<close>

lemma rb_invD:
  assumes "rb_inv R chk att us s"
  shows "\<forall>iu\<in>set (p_units s). fst iu < length us \<and> snd iu = us ! fst iu"
    "\<forall>v\<in>set (p_workers s). wfail att us v" "distinct (pipe s)"
    "\<forall>x\<in>set (pending s). unsaved_ok chk (p_heap s x)" "\<not> aborted (p_db s)"
    "\<forall>i < length us. unit_ok R att us s i" "\<forall>i < length us. fail_ok R att us s i"
  by (insert assms[unfolded rb_inv_def]) (elim conjE; assumption)+

lemma rb_invI:
  assumes "\<forall>iu\<in>set (p_units s). fst iu < length us \<and> snd iu = us ! fst iu"
    "\<forall>v\<in>set (p_workers s). wfail att us v" "distinct (pipe s)"
    "\<forall>x\<in>set (pending s). unsaved_ok chk (p_heap s x)" "\<not> aborted (p_db s)"
    "\<forall>i < length us. unit_ok R att us s i" "\<forall>i < length us. fail_ok R att us s i"
  shows "rb_inv R chk att us s"
  unfolding rb_inv_def by (intro conjI) (rule assms)+

lemma rb_init: "rb_inv R chk att us (pinit n us h d free) \<longleftrightarrow> \<not> aborted d"
proof -
  have u: "i \<in> fst ` set (enumerate 0 us)" if "i < length us" for i
    using that map_fst_enumerate[of 0 us] by (metis atLeastLessThan_iff atLeastLessThan_upt list.set_map add_0 zero_le)
  show ?thesis
    by (auto simp: rb_inv_def pinit_def pipe_def pending_def unit_ok_def fail_ok_def upay_def busy_def u
        in_set_enumerate_eq)
qed

lemma working_gone:
  assumes "idx_ok s" "w < length (p_workers s)" "windex (p_workers s ! w) = Some i" "\<forall>u k. v \<noteq> Working i u k"
  shows "Working i u k \<notin> set ((p_workers s)[w := v])"
proof
  assume "Working i u k \<in> set ((p_workers s)[w := v])"
  then obtain n where n: "n < length (p_workers s)" "(p_workers s)[w := v] ! n = Working i u k"
    by (auto simp: in_set_conv_nth)
  show False
  proof (cases "n = w")
    case True
    with n assms(4) show False by simp
  next
    case False
    with n have "windex (p_workers s ! n) = Some i" by simp
    with idx_ok_unique[OF assms(1,2) n(1) False assms(3)] show False by simp
  qed
qed

lemma held_not_queued:
  "idx_ok s \<Longrightarrow> w < length (p_workers s) \<Longrightarrow> windex (p_workers s ! w) = Some i \<Longrightarrow> i \<notin> fst ` set (p_units s)"
  using idx_listD(1)[of "p_units s" "map windex (p_workers s)" w i] by (simp add: idx_ok_def)

lemma wobjs_emitting:
  assumes "y \<in> set (concat (map wobjs ws))"
  obtains w i xs where "w < length ws" "ws ! w = Emitting i xs" "y \<in> set xs"
proof -
  from assms obtain v where v: "v \<in> set ws" "y \<in> set (wobjs v)" by auto
  from v(2) obtain i xs where "v = Emitting i xs" "y \<in> set xs" by (cases v) auto
  with v(1) show ?thesis by (metis in_set_conv_nth that)
qed

lemma pipe_below:
  assumes "pinv s" "y \<in> set (pipe s)"
  shows "y < p_free s"
proof (cases "y \<in> set (p_out s @ p_results s)")
  case True
  with assms(1) show ?thesis by (simp add: pinv_def fresh_okD(1))
next
  case False
  with assms(2) have "y \<in> set (concat (map wobjs (p_workers s)))" by (simp add: pipe_def pending_def)
  then obtain w i xs where "w < length (p_workers s)" "p_workers s ! w = Emitting i xs" "y \<in> set xs"
    by (rule wobjs_emitting)
  with assms(1) show ?thesis by (auto simp: pinv_def emit_ok_def dest: workers_okD)
qed

lemma rb_quiet:
  assumes inv: "rb_inv R chk att us s"
    and s': "p_heap s' = p_heap s" "p_owner s' = p_owner s" "p_db s' = p_db s" "p_out s' = p_out s"
      "pending s' = pending s"
    and un: "\<forall>iu\<in>set (p_units s'). fst iu < length us \<and> snd iu = us ! fst iu"
    and wf: "\<forall>v\<in>set (p_workers s'). wfail att us v"
    and b: "\<And>j. j < length us \<Longrightarrow>
      (busy s' j = busy s j \<and> ((j, us ! j) \<in> set (p_failed s') \<longleftrightarrow> (j, us ! j) \<in> set (p_failed s))) \<or>
      (\<not> busy s' j \<and> first_ok R att (us ! j) = None \<and> (j, us ! j) \<in> set (p_failed s'))"
  shows "rb_inv R chk att us s'"
proof -
  note D = rb_invD[OF inv]
  have p: "pipe s' = pipe s" using s' by (simp add: pipe_def)
  have u: "upay s' = upay s" using s' p by (simp add: upay_def fun_eq_iff)
  have "unit_ok R att us s' j" if "j < length us" for j
    using b[OF that] D(6) that by (auto simp: unit_ok_def unit_yield_def u split: if_splits)
  moreover have "fail_ok R att us s' j" if "j < length us" for j
    using b[OF that] D(7) that by (auto simp: fail_ok_def)
  ultimately show ?thesis using D p s' un wf by (intro rb_invI) simp_all
qed

lemma fail_ok_same:
  "fail_ok R att us s j \<Longrightarrow> busy s' j = busy s j \<Longrightarrow> p_failed s' = p_failed s \<Longrightarrow> fail_ok R att us s' j"
  by (simp add: fail_ok_def)

lemma rb_take:
  assumes inv: "rb_inv R chk att us s" and w: "w < length (p_workers s)" "p_workers s ! w = Idle"
    and un: "p_units s = (i, u) # us'"
  shows "rb_inv R chk att us (s\<lparr>p_units := us', p_workers := (p_workers s)[w := Working i u 1]\<rparr>)"
    (is "rb_inv _ _ _ _ ?s")
proof (rule rb_quiet[OF inv])
  note D = rb_invD[OF inv]
  show "pending ?s = pending s"
    using concat_map_update_same[OF w(1), of wobjs "Working i u 1"] w(2) by (simp add: pending_def)
  show "\<forall>iu\<in>set (p_units ?s). fst iu < length us \<and> snd iu = us ! fst iu" using D(1) un by simp
  show "\<forall>v\<in>set (p_workers ?s). wfail att us v" using ball_update[OF D(2), of "Working i u 1" w] D(1) un by simp
  have "busy ?s j = busy s j" for j
  proof (cases "j = i")
    case True
    have "Working i u 1 \<in> set (p_workers ?s)" using w(1) by (simp add: set_update_memI)
    with True un show ?thesis by (auto simp: busy_def)
  next
    case False
    then have "Working j u' k \<in> set (p_workers ?s) \<longleftrightarrow> Working j u' k \<in> set (p_workers s)" for u' k
      using in_set_update_neq[OF w(1)] w(2) by simp
    with False un show ?thesis by (simp add: busy_def)
  qed
  then show "(busy ?s j = busy s j \<and> ((j, us ! j) \<in> set (p_failed ?s) \<longleftrightarrow> (j, us ! j) \<in> set (p_failed s))) \<or>
      (\<not> busy ?s j \<and> first_ok R att (us ! j) = None \<and> (j, us ! j) \<in> set (p_failed ?s))" for j
    by simp
qed simp_all

lemma rb_retry:
  assumes inv: "rb_inv R chk att us s" and w: "w < length (p_workers s)" "p_workers s ! w = Working i u k"
    and a: "att u k = (specs, Some e)"
  shows "rb_inv R chk att us (s\<lparr>p_workers := (p_workers s)[w := Working i u (Suc k)], p_tries := t\<rparr>)"
    (is "rb_inv _ _ _ _ ?s")
proof (rule rb_quiet[OF inv])
  note D = rb_invD[OF inv]
  have "wfail att us (Working i u k)" using D(2) w by (metis nth_mem)
  with a have "wfail att us (Working i u (Suc k))" by (auto simp: less_Suc_eq)
  from ball_update[OF D(2) this] show "\<forall>v\<in>set (p_workers ?s). wfail att us v" by simp
  show "pending ?s = pending s"
    using concat_map_update_same[OF w(1), of wobjs "Working i u (Suc k)"] w(2) by (simp add: pending_def)
  have "busy ?s j = busy s j" for j
  proof (cases "j = i")
    case True
    have "Working i u (Suc k) \<in> set (p_workers ?s)" using w(1) by (simp add: set_update_memI)
    moreover have "Working i u k \<in> set (p_workers s)" using w by (metis nth_mem)
    ultimately show ?thesis using True by (auto simp: busy_def)
  next
    case False
    then have "Working j u' k' \<in> set (p_workers ?s) \<longleftrightarrow> Working j u' k' \<in> set (p_workers s)" for u' k'
      using in_set_update_neq[OF w(1)] w(2) by simp
    with False show ?thesis by (simp add: busy_def)
  qed
  then show "(busy ?s j = busy s j \<and> ((j, us ! j) \<in> set (p_failed ?s) \<longleftrightarrow> (j, us ! j) \<in> set (p_failed s))) \<or>
      (\<not> busy ?s j \<and> first_ok R att (us ! j) = None \<and> (j, us ! j) \<in> set (p_failed ?s))" for j
    by simp
qed (use rb_invD(1)[OF inv] in simp_all)

lemma rb_give_up:
  assumes inv: "rb_inv R chk att us s" and p: "pinv s" and t: "tinv R n s"
    and w: "w < length (p_workers s)" "p_workers s ! w = Working i u k"
    and a: "att u k = (specs, Some e)" and k: "R \<le> k"
  shows "rb_inv R chk att us (s\<lparr>p_workers := (p_workers s)[w := Idle], p_failed := p_failed s @ [(i, u)],
    p_tries := tr\<rparr>)"
    (is "rb_inv _ _ _ _ ?s")
proof (rule rb_quiet[OF inv])
  note D = rb_invD[OF inv]
  show "\<forall>v\<in>set (p_workers ?s). wfail att us v" using ball_update[OF D(2), of Idle] by simp
  show "pending ?s = pending s"
    using concat_map_update_same[OF w(1), of wobjs Idle] w(2) by (simp add: pending_def)
  show "(busy ?s j = busy s j \<and> ((j, us ! j) \<in> set (p_failed ?s) \<longleftrightarrow> (j, us ! j) \<in> set (p_failed s))) \<or>
      (\<not> busy ?s j \<and> first_ok R att (us ! j) = None \<and> (j, us ! j) \<in> set (p_failed ?s))" for j
  proof (cases "j = i")
    case True
    have f: "wfail att us (Working i u k)" using D(2) w by (metis nth_mem)
    have "1 \<le> k" using tinv_busy(2)[OF t w(1)] w(2) by simp
    with f a k have "\<forall>j. 1 \<le> j \<longrightarrow> j \<le> max 1 R \<longrightarrow> snd (att (us ! i) j) \<noteq> None"
      by (metis wfail.simps(1) max.bounded_iff nat_less_le order_trans snd_conv option.simps(3))
    then have "first_ok R att (us ! i) = None" by (rule first_ok_None)
    moreover have "u = us ! i" using f by simp
    moreover have "i \<notin> fst ` set (p_units s)"
      using held_not_queued[of s w i] p w by (simp add: pinv_def)
    moreover have "Working i u' k' \<notin> set (p_workers ?s)" for u' k'
      using working_gone[of s w i Idle] p w by (simp add: pinv_def)
    ultimately show ?thesis using True by (simp add: busy_def)
  next
    case False
    then have "Working j u' k' \<in> set (p_workers ?s) \<longleftrightarrow> Working j u' k' \<in> set (p_workers s)" for u' k'
      using in_set_update_neq[OF w(1)] w(2) by simp
    with False show ?thesis by (simp add: busy_def)
  qed
qed (use rb_invD(1)[OF inv] in simp_all)

lemma rb_finish:
  assumes inv: "rb_inv R chk att us s" and w: "w < length (p_workers s)" "p_workers s ! w = Emitting i []"
  shows "rb_inv R chk att us (s\<lparr>p_workers := (p_workers s)[w := Idle]\<rparr>)"
    (is "rb_inv _ _ _ _ ?s")
proof (rule rb_quiet[OF inv])
  note D = rb_invD[OF inv]
  show "\<forall>v\<in>set (p_workers ?s). wfail att us v" using ball_update[OF D(2), of Idle] by simp
  show "pending ?s = pending s"
    using concat_map_update_same[OF w(1), of wobjs Idle] w(2) by (simp add: pending_def)
  have "Working j u' k' \<in> set (p_workers ?s) \<longleftrightarrow> Working j u' k' \<in> set (p_workers s)" for j u' k'
    using in_set_update_neq[OF w(1)] w(2) by simp
  then show "(busy ?s j = busy s j \<and> ((j, us ! j) \<in> set (p_failed ?s) \<longleftrightarrow> (j, us ! j) \<in> set (p_failed s))) \<or>
      (\<not> busy ?s j \<and> first_ok R att (us ! j) = None \<and> (j, us ! j) \<in> set (p_failed ?s))" for j
    by (simp add: busy_def)
qed (use rb_invD(1)[OF inv] in simp_all)

lemma rb_all_done: "rb_inv R chk att us s \<Longrightarrow> rb_inv R chk att us (s\<lparr>p_done := True\<rparr>)"
  by (rule rb_quiet) (auto simp: pending_def busy_def dest: rb_invD)

lemma filter_fresh:
  assumes "\<forall>y\<in>set A \<union> set B. y \<notin> set objs"
  shows "filter (\<lambda>x. (if x \<in> set objs then Some i else own x) = Some j) (A @ objs @ B) =
           (if j = i then filter (\<lambda>x. own x = Some j) A @ objs @ filter (\<lambda>x. own x = Some j) B
            else filter (\<lambda>x. own x = Some j) (A @ B))"
proof -
  have "filter (\<lambda>x. (if x \<in> set objs then Some i else own x) = Some j) A = filter (\<lambda>x. own x = Some j) A"
    using assms by (intro filter_cong) auto
  moreover have "filter (\<lambda>x. (if x \<in> set objs then Some i else own x) = Some j) B = filter (\<lambda>x. own x = Some j) B"
    using assms by (intro filter_cong) auto
  moreover have "filter (\<lambda>x. (if x \<in> set objs then Some i else own x) = Some j) objs = (if j = i then objs else [])"
    by (auto simp: filter_empty_conv)
  ultimately show ?thesis by simp
qed

lemma map_filter_cong:
  "(\<And>y. y \<in> set xs \<Longrightarrow> f y = g y) \<Longrightarrow> map f (filter P xs) = map g (filter P xs)"
  by (rule map_cong) auto

lemma success_split:
  assumes p: "pinv s" and w: "w < length (p_workers s)" "p_workers s ! w = Working i u k"
    and al: "alloc (p_heap s) (p_free s) 0 specs = (h', objs)"
  obtains A B where "pipe s = A @ B"
    "pipe (s\<lparr>p_workers := (p_workers s)[w := Emitting i objs], p_heap := h', p_free := f, p_owner := own,
       p_tries := tr\<rparr>) = A @ objs @ B"
    "\<forall>y\<in>set A \<union> set B. y \<notin> set objs \<and> h' y = p_heap s y" "distinct objs"
    "set (pending (s\<lparr>p_workers := (p_workers s)[w := Emitting i objs], p_heap := h', p_free := f, p_owner := own,
       p_tries := tr\<rparr>)) \<subseteq> set (pending s) \<union> set objs"
proof -
  define A where "A = p_out s @ p_results s @ concat (map wobjs (take w (p_workers s)))"
  define B where "B = concat (map wobjs (drop (Suc w) (p_workers s)))"
  have ps: "pipe s = A @ B"
    using concat_map_split[OF w(1), of wobjs] w(2) by (simp add: pipe_def pending_def A_def B_def)
  have o: "objs = [p_free s..<p_free s + length specs]"
    using alloc_objs[of "p_heap s" "p_free s" 0 specs] al by simp
  have below: "y < p_free s" if "y \<in> set A \<union> set B" for y
    using pipe_below[OF p, of y] ps that by simp
  have "\<forall>y\<in>set A \<union> set B. y \<notin> set objs \<and> h' y = p_heap s y"
    using below alloc_heap[of "p_heap s" "p_free s" 0 specs] al o by fastforce
  then show ?thesis
    using that[OF ps] concat_map_update_split[OF w(1), of wobjs] concat_map_split[OF w(1), of wobjs] w(2) o
    by (auto simp: pipe_def pending_def A_def B_def)
qed

lemma success_yield:
  assumes "wfail att us (Working i u k)" "1 \<le> k \<and> k \<le> max 1 R" "att u k = (specs, None)"
  shows "first_ok R att (us ! i) = Some k \<and> unit_yield R att (us ! i) = specs"
proof -
  from assms(1) have u: "u = us ! i" and f: "\<forall>j. 1 \<le> j \<longrightarrow> j < k \<longrightarrow> snd (att u j) \<noteq> None"
    unfolding wfail.simps by blast+
  from first_ok_Some[of k R att u] assms(2,3) f have "first_ok R att u = Some k" by simp
  with assms(3) u show ?thesis by (simp add: unit_yield_def)
qed

lemma rb_success:
  assumes inv: "rb_inv R chk att us s" and p: "pinv s" and t: "tinv R n s" and fa: "flat_accepted chk att"
    and w: "w < length (p_workers s)" "p_workers s ! w = Working i u k"
    and a: "att u k = (specs, None)" and al: "alloc (p_heap s) (p_free s) 0 specs = (h', objs)"
  shows "rb_inv R chk att us (s\<lparr>p_workers := (p_workers s)[w := Emitting i objs], p_heap := h',
       p_free := p_free s + length specs,
       p_owner := (\<lambda>x. if x \<in> set objs then Some i else p_owner s x), p_tries := tr\<rparr>)"
    (is "rb_inv _ _ _ _ ?s")
proof -
  note D = rb_invD[OF inv]
  obtain A B where ps: "pipe s = A @ B" and ps': "pipe ?s = A @ objs @ B"
    and fr: "\<forall>y\<in>set A \<union> set B. y \<notin> set objs \<and> h' y = p_heap s y" and dobj: "distinct objs"
    and pend: "set (pending ?s) \<subseteq> set (pending s) \<union> set objs"
    by (rule success_split[OF p w al])
  have fresh: "\<forall>y\<in>set A \<union> set B. y \<notin> set objs" using fr by blast
  have wf: "wfail att us (Working i u k)" using D(2) w by (metis nth_mem)
  have "1 \<le> k \<and> k \<le> max 1 R" using tinv_busy(2)[OF t w(1)] w(2) by simp
  note ok = success_yield[OF wf this a]
  have nb: "\<not> busy ?s i"
    using held_not_queued[of s w i] working_gone[of s w i "Emitting i objs"] p w by (simp add: pinv_def busy_def)
  have bi: "busy s i" using w unfolding busy_def by (metis nth_mem)
  have bj: "busy ?s j = busy s j" if "j \<noteq> i" for j
  proof -
    have "Working j u' k' \<in> set (p_workers ?s) \<longleftrightarrow> Working j u' k' \<in> set (p_workers s)" for u' k'
      using in_set_update_neq[OF w(1)] w(2) that by simp
    then show ?thesis by (simp add: busy_def)
  qed
  have uo: "unit_ok R att us ?s j" if "j < length us" for j
  proof (cases "j = i")
    case True
    from D(6) that True bi have "upay s i = []" by (simp add: unit_ok_def)
    then have "filter (\<lambda>x. p_owner s x = Some i) A = []" "filter (\<lambda>x. p_owner s x = Some i) B = []"
      by (simp_all add: upay_def ps)
    then have "upay ?s i = map (\<lambda>x. payload (h' x)) objs"
      using filter_fresh[OF fresh, of i "p_owner s" i] by (simp add: upay_def ps')
    with alloc_payloads[OF al] nb ok True show ?thesis by (simp add: unit_ok_def)
  next
    case False
    have "upay ?s j = map (\<lambda>x. payload (h' x)) (filter (\<lambda>x. p_owner s x = Some j) (A @ B))"
      using filter_fresh[OF fresh, of i "p_owner s" j] False by (simp add: upay_def ps')
    also have "\<dots> = upay s j"
      unfolding upay_def ps by (rule map_filter_cong) (use fr in simp)
    finally show ?thesis using D(6) that bj[OF False] by (simp add: unit_ok_def)
  qed
  have dist: "distinct (pipe ?s)" using D(3) fresh dobj by (auto simp: ps ps')
  have ab: "set (pending s) \<subseteq> set A \<union> set B" using arg_cong[OF ps, of set] by (auto simp: pipe_def)
  have "\<forall>x\<in>set (pending ?s). unsaved_ok chk (h' x)"
  proof
    fix x assume "x \<in> set (pending ?s)"
    with pend consider "x \<in> set (pending s)" | "x \<in> set objs" by blast
    then show "unsaved_ok chk (h' x)"
    proof cases
      case 1
      with fr D(4) ab show ?thesis by auto
    qed (rule alloc_unsaved[OF al _ flat_accepted_specs[OF fa a]])
  qed
  moreover have "\<forall>v\<in>set (p_workers ?s). wfail att us v" using ball_update[OF D(2), of "Emitting i objs" w] by simp
  moreover have "fail_ok R att us ?s j" if "j < length us" for j
  proof (cases "j = i")
    case True
    with D(7) that bi nb ok show ?thesis by (simp add: fail_ok_def)
  qed (use D(7) that bj in \<open>simp add: fail_ok_def\<close>)
  ultimately show ?thesis using D(1,5) dist uo by (intro rb_invI) simp_all
qed

lemma emitting_owner:
  "pinv s \<Longrightarrow> w < length (p_workers s) \<Longrightarrow> p_workers s ! w = Emitting i xs \<Longrightarrow> y \<in> set xs \<Longrightarrow> p_owner s y = Some i"
  by (auto simp: pinv_def emit_ok_def dest: workers_okD)

lemma rb_emit:
  assumes inv: "rb_inv R chk att us s" and p: "pinv s"
    and w: "w < length (p_workers s)" "p_workers s ! w = Emitting i (x # xs)"
  shows "rb_inv R chk att us (s\<lparr>p_results := p_results s @ [x], p_workers := (p_workers s)[w := Emitting i xs]\<rparr>)"
    (is "rb_inv _ _ _ _ ?s")
proof -
  note D = rb_invD[OF inv]
  define C where "C = concat (map wobjs (take w (p_workers s)))"
  define E where "E = concat (map wobjs (drop (Suc w) (p_workers s)))"
  have ps: "pipe s = (p_out s @ p_results s) @ C @ x # (xs @ E)"
    using concat_map_split[OF w(1), of wobjs] w(2) by (simp add: pipe_def pending_def C_def E_def)
  have ps': "pipe ?s = (p_out s @ p_results s) @ [x] @ C @ (xs @ E)"
    using concat_map_update_split[OF w(1), of wobjs] by (simp add: pipe_def pending_def C_def E_def)
  have ox: "p_owner s x = Some i" using emitting_owner[OF p w] by simp
  have oC: "p_owner s y \<noteq> Some i" if "y \<in> set C" for y
  proof -
    from that obtain w1 i1 ys where w1: "w1 < length (take w (p_workers s))"
        "take w (p_workers s) ! w1 = Emitting i1 ys" "y \<in> set ys"
      unfolding C_def by (rule wobjs_emitting)
    then have w1': "w1 < length (p_workers s)" "w1 \<noteq> w" "p_workers s ! w1 = Emitting i1 ys" by auto
    have "i1 \<noteq> i" using idx_ok_unique[of s w w1 i] p w w1' by (auto simp: pinv_def)
    with emitting_owner[OF p w1'(1,3) w1(3)] show ?thesis by simp
  qed
  have "filter (\<lambda>y. p_owner s y = Some j) (pipe ?s) = filter (\<lambda>y. p_owner s y = Some j) (pipe s)" for j
    unfolding ps ps' by (rule filter_swap) (use oC ox in auto)
  then have u: "upay ?s = upay s" by (simp add: upay_def fun_eq_iff)
  have "Working j u' k' \<in> set (p_workers ?s) \<longleftrightarrow> Working j u' k' \<in> set (p_workers s)" for j u' k'
    using in_set_update_neq[OF w(1)] w(2) by simp
  then have b: "busy ?s = busy s" by (simp add: busy_def fun_eq_iff)
  have sp: "set (pending ?s) = set (pending s)"
    using concat_map_update_split[OF w(1), of wobjs] concat_map_split[OF w(1), of wobjs] w(2)
    by (auto simp: pending_def)
  have "distinct (pipe ?s)" using D(3) unfolding ps ps' by auto
  moreover have "\<forall>v\<in>set (p_workers ?s). wfail att us v" using ball_update[OF D(2), of "Emitting i xs" w] by simp
  moreover have "\<forall>j < length us. unit_ok R att us ?s j" using D(6) by (simp add: unit_ok_def u b)
  moreover have "\<forall>j < length us. fail_ok R att us ?s j" using D(7) by (simp add: fail_ok_def b)
  ultimately show ?thesis using D(1,4,5) sp by (intro rb_invI) simp_all
qed

lemma rb_commit:
  assumes inv: "rb_inv R chk att us s" and r: "p_results s = x # xs" "save chk (p_heap s, p_db s) x = ((h', d'), r)"
  shows "rb_inv R chk att us (s\<lparr>p_results := xs, p_heap := h', p_db := d',
       p_out := p_out s @ (case r of Inr (Some v) \<Rightarrow> [v] | _ \<Rightarrow> [])\<rparr>)"
    (is "rb_inv _ _ _ _ ?s")
proof -
  note D = rb_invD[OF inv]
  have "unsaved_ok chk (p_heap s x)" using D(4) r(1) by (simp add: pending_def)
  with save_accepted[OF r(2) D(5)] have rx: "r = Inr (Some x)" "\<not> aborted d'" by simp_all
  have ps: "pipe ?s = pipe s" using r(1) rx by (simp add: pipe_def pending_def)
  have k: "payload (h' y) = payload (p_heap s y)" "parent (h' y) = parent (p_heap s y)" for y
    using save_keeps[OF r(2)] by simp_all
  have u: "upay ?s = upay s" by (simp add: upay_def fun_eq_iff ps k)
  have b: "busy ?s = busy s" by (simp add: busy_def fun_eq_iff)
  have "\<forall>y\<in>set (pending ?s). unsaved_ok chk (h' y)"
    using D(4) r(1) by (simp add: pending_def unsaved_ok_def k)
  moreover have "\<forall>j < length us. unit_ok R att us ?s j" using D(6) by (simp add: unit_ok_def u b)
  moreover have "\<forall>j < length us. fail_ok R att us ?s j" using D(7) by (simp add: fail_ok_def b)
  ultimately show ?thesis using D(1,2,3) rx(2) ps by (intro rb_invI) simp_all
qed

lemma pstep_rb:
  assumes st: "pstep R chk att s s'" and inv: "rb_inv R chk att us s" and p: "pinv s" and t: "tinv R n s"
    and fa: "flat_accepted chk att"
  shows "rb_inv R chk att us s'"
  using st
proof (cases rule: pstep_cases)
  case (take w i u us')
  then show ?thesis using rb_take[OF inv] by simp
next
  case (success w i u k specs h' objs)
  then show ?thesis using rb_success[OF inv p t fa] by simp
next
  case (retry w i u k specs e)
  then show ?thesis using rb_retry[OF inv] by simp
next
  case (give_up w i u k specs e)
  then show ?thesis using rb_give_up[OF inv p t] by simp
next
  case (emit w i x xs)
  then show ?thesis using rb_emit[OF inv p] by simp
next
  case (finish w i)
  then show ?thesis using rb_finish[OF inv] by simp
next
  case all_done
  then show ?thesis using rb_all_done[OF inv] by simp
next
  case (commit x xs h' d' r)
  then show ?thesis using rb_commit[OF inv] by simp
qed

lemma reachable_rb:
  assumes fa: "flat_accepted chk att" and d: "\<not> aborted d"
    and "(pstep R chk att)\<^sup>*\<^sup>* (pinit n us h d free) s"
  shows "rb_inv R chk att us s"
  using assms(3)
proof (induction rule: rtranclp_induct)
  case base
  show ?case using d by (rule rb_init[THEN iffD2])
next
  case (step y z)
  from reachable_pinv[OF step.hyps(1)] reachable_tinv[OF step.hyps(1)]
  show ?case by (rule pstep_rb[OF step.hyps(2) step.IH _ _ fa])
qed

lemma ex_att_yield: "unit_yield 3 ex_att 0 = [\<lparr>s_parent = SNone, s_payload = Headline 0\<rparr>]"
  by (simp add: unit_yield_def first_ok_def ex_att_def numeral_3_eq_3)

lemma ex_att_flat: "flat_accepted test_chk ex_att"
  by (simp add: flat_accepted_def ex_att_def flat_spec_def test_chk_def)

text \<open>
  C15. Retry budget (spec sections 4.4 and 8): for any number of workers and every
  interleaving, once \<open>ThreadedController.scrape\<close>'s pool has finished, the articles
  the committer saved for unit \<open>i\<close> are, in order, exactly those of the unit's
  first attempt that did not raise among the \<open>max 1 R\<close> allowed: once each if it
  succeeds within the budget, none if every attempt raised; and the unit is logged as
  failed exactly when every attempt raised.
\<close>

theorem pooled_retry_budget:
  assumes "flat_accepted chk att" and "\<not> aborted d"
    and "(pstep R chk att)\<^sup>*\<^sup>* (pinit n us h d free) s" and "pfinal s" and "i < length us"
  shows "map (\<lambda>x. payload (p_heap s x)) (filter (\<lambda>x. p_owner s x = Some i) (p_out s)) =
           map s_payload (unit_yield R att (us ! i)) \<and>
         ((i, us ! i) \<in> set (p_failed s) \<longleftrightarrow> first_ok R att (us ! i) = None)"
proof -
  have inv: "rb_inv R chk att us s" using reachable_rb[OF assms(1-3)] .
  have t: "tinv R (length us) s" using reachable_tinv[OF assms(3)] .
  with assms(4) have idle: "p_units s = []" "list_all (\<lambda>w. w = Idle) (p_workers s)" "p_results s = []"
    by (simp_all add: tinv_def pfinal_def)
  then have "concat (map wobjs (p_workers s)) = []" by (induction "p_workers s") (auto simp: list_all_iff)
  with idle have "pipe s = p_out s" by (simp add: pipe_def pending_def)
  moreover have "\<not> busy s i" using idle by (auto simp: busy_def list_all_iff)
  ultimately show ?thesis using rb_invD(6,7)[OF inv] assms(5) by (simp add: unit_ok_def fail_ok_def upay_def)
qed

lemma ex_att_first: "first_ok 3 ex_att 0 = Some 2"
  by (simp add: first_ok_def ex_att_def numeral_3_eq_3 numeral_2_eq_2)

theorem pooled_retry_budget_witness:
  "\<exists>s. (pstep 3 test_chk ex_att)\<^sup>*\<^sup>* ex_pool s \<and> pfinal s \<and> flat_accepted test_chk ex_att \<and>
     \<not> aborted (c_db ex_state) \<and> 0 < length [0::nat] \<and>
     map (\<lambda>x. payload (p_heap s x)) (filter (\<lambda>x. p_owner s x = Some 0) (p_out s)) = [Headline 0] \<and>
     (0, 0) \<notin> set (p_failed s)"
proof -
  from ex_pool_run obtain s where s: "(pstep 3 test_chk ex_att)\<^sup>*\<^sup>* ex_pool s" "pfinal s" by blast
  have d: "\<not> aborted (c_db ex_state)" by (simp add: ex_state_def)
  from pooled_retry_budget[OF ex_att_flat d s(1)[unfolded ex_pool_def] s(2), of 0]
  have "map (\<lambda>x. payload (p_heap s x)) (filter (\<lambda>x. p_owner s x = Some 0) (p_out s)) = [Headline 0]"
    "(0, 0) \<notin> set (p_failed s)"
    by (simp_all add: ex_att_yield ex_att_first)
  with s ex_att_flat d show ?thesis by auto
qed

end
