(* ===== verification/Isolation.thy ===== *)
theory Isolation
  imports FlatSave
begin

text \<open>
  The isolation property of spec section 8 for \<open>RobustController._scrape\<close>
  (\<open>src/amcat/scraping/controller.py\<close>, lines 132--159, with \<open>scrape_unit\<close>,
  160--168), for every harvester whose articles have no parents in their batch and are
  accepted by the database: a unit that raises is recorded as one
  \<open>ScrapeError(i, unit, e)\<close> at its index and skipped, the articles of every other
  unit are written and returned in unit order, and the call raises only when no unit
  gave an article.
\<close>

section \<open>The promise\<close>

text \<open>
  The errors the isolating policy promises for the numbered units (spec sections 4.3
  and 7): one for each unit whose harvest raises, at its index; and the payloads of
  the articles of the units whose harvest does not raise, in unit order.
\<close>

definition iso_errors :: "('u, 'p, 'dt) harvester \<Rightarrow> (nat \<times> 'u) list \<Rightarrow> 'u scrape_error list" where
  "iso_errors hv ius =
     concat (map (\<lambda>(i, u). case snd (scrape_unit hv u) of None \<Rightarrow> [] | Some e \<Rightarrow> [ScrapeError (Some i) (Some u) e]) ius)"

definition iso_payloads :: "('u, 'p, 'dt) harvester \<Rightarrow> 'u list \<Rightarrow> 'p list" where
  "iso_payloads hv us =
     concat (map (\<lambda>u. case snd (scrape_unit hv u) of None \<Rightarrow> map s_payload (fst (scrape_unit hv u)) | Some e \<Rightarrow> []) us)"

section \<open>Example\<close>

text \<open>The harvester of spec section 8: units \<open>[u0, u1, u2]\<close>, of which \<open>u1\<close> raises.\<close>

definition iso_scraper :: "(nat, tpay, unit) harvester" where
  "iso_scraper =
     \<lparr>get_units = ([0, 1, 2], None),
      scrape_unit = (\<lambda>u. if u = 1 then ([], Some (ParseError ''bad page''))
                         else ([\<lparr>s_parent = SNone, s_payload = Headline u\<rparr>], None)),
      options_date = None, articleset = 7\<rparr>"

section \<open>The unit loop\<close>

lemma iso_simps [simp]:
  "iso_errors hv [] = []"
  "iso_errors hv ((i, u) # ius) =
     (case snd (scrape_unit hv u) of None \<Rightarrow> [] | Some e \<Rightarrow> [ScrapeError (Some i) (Some u) e]) @ iso_errors hv ius"
  "iso_payloads hv [] = []"
  "iso_payloads hv (u # us) =
     (case snd (scrape_unit hv u) of None \<Rightarrow> map s_payload (fst (scrape_unit hv u)) | Some e \<Rightarrow> []) @ iso_payloads hv us"
  by (simp_all add: iso_errors_def iso_payloads_def)

text \<open>
  \<open>harvest\<close> creates the unit's articles at fresh addresses and leaves the payloads
  below them alone.
\<close>

lemma harvest_alloc:
  assumes "scrape_unit hv u = (specs, ex)" "alloc (c_heap st) (c_free st) 0 specs = (h1, objs)"
  shows "harvest hv u st = (st\<lparr>c_heap := h1, c_free := c_free st + length specs\<rparr>, py_list (objs, ex))"
    "objs = [c_free st..<c_free st + length specs]"
    "\<And>x. x < c_free st \<Longrightarrow> h1 x = c_heap st x"
proof -
  show "harvest hv u st = (st\<lparr>c_heap := h1, c_free := c_free st + length specs\<rparr>, py_list (objs, ex))"
    using assms by (simp add: harvest_def)
  show "objs = [c_free st..<c_free st + length specs]"
    using alloc_objs[of "c_heap st" "c_free st" 0 specs] assms(2) by simp
  show "h1 x = c_heap st x" if "x < c_free st" for x
    using alloc_heap[of "c_heap st" "c_free st" 0 specs x] assms(2) that by simp
qed

text \<open>
  A unit whose harvest raises: its articles are created and dropped, nothing is
  written.  A unit whose harvest returns: its articles are created and saved in order.
\<close>

lemma harvest_raises:
  assumes "scrape_unit hv u = (specs, Some e)"
  shows "\<exists>st1. harvest hv u st = (st1, Inl e) \<and> c_db st1 = c_db st \<and> errors st1 = errors st \<and>
           c_free st \<le> c_free st1 \<and> (\<forall>x < c_free st. c_heap st1 x = c_heap st x)"
proof -
  obtain h1 objs where al: "alloc (c_heap st) (c_free st) 0 specs = (h1, objs)" by fastforce
  from harvest_alloc[OF assms al] show ?thesis by auto
qed

lemma harvest_saves:
  assumes fa: "flat_accepted chk (\<lambda>u k. scrape_unit hv u)" and d: "\<not> aborted (c_db st)"
    and su: "scrape_unit hv u = (specs, None)" and n: "length specs < n"
  shows "\<exists>st1 st2 rows. harvest hv u st = (st1, Inr [c_free st..<c_free st2]) \<and>
     sio_st n chk [c_free st..<c_free st2] st1 = Some (st2, [c_free st..<c_free st2], None) \<and>
     \<not> aborted (c_db st2) \<and> c_free st2 = c_free st + length specs \<and> errors st2 = errors st \<and>
     (\<forall>x < c_free st. payload (c_heap st2 x) = payload (c_heap st x)) \<and>
     map (\<lambda>x. payload (c_heap st2 x)) [c_free st..<c_free st2] = map s_payload specs \<and>
     log (c_db st2) = log (c_db st) @ rows \<and> map row_data rows = map s_payload specs"
proof -
  obtain h1 objs where al: "alloc (c_heap st) (c_free st) 0 specs = (h1, objs)" by fastforce
  note ha = harvest_alloc[OF su al]
  have B: "\<forall>a\<in>set objs. unsaved_ok chk (h1 a)"
    using alloc_unsaved[OF al _ flat_accepted_specs[OF fa su]] by blast
  then have "\<forall>a\<in>set objs. parent (h1 a) = PNone \<or> parent (h1 a) = NoAttr" by (simp add: unsaved_ok_def)
  then have rt: "roots h1 objs = objs" by (rule roots_flat)
  have "length objs < n" using n ha(2) by simp
  from sio_loop_accepted[OF B _ this d] obtain h2 d2 rows where
    sl: "sio_loop n chk objs objs (h1, c_db st) = Some ((h2, d2), objs, None)" "\<not> aborted d2"
      "\<forall>y. payload (h2 y) = payload (h1 y) \<and> parent (h2 y) = parent (h1 y)"
      "log d2 = log (c_db st) @ rows" "map row_data rows = map (\<lambda>x. payload (h1 x)) objs" by auto
  define st1 where "st1 = st\<lparr>c_heap := h1, c_free := c_free st + length specs\<rparr>"
  define st2 where "st2 = st1\<lparr>c_heap := h2, c_db := d2\<rparr>"
  have o: "objs = [c_free st..<c_free st2]" using ha(2) by (simp add: st2_def st1_def)
  have "harvest hv u st = (st1, Inr [c_free st..<c_free st2])" using ha(1) o by (simp add: st1_def)
  moreover have "sio_st n chk [c_free st..<c_free st2] st1 = Some (st2, [c_free st..<c_free st2], None)"
    using sl(1) rt o by (simp add: sio_st_def save_in_order_def st1_def st2_def)
  moreover have "map (\<lambda>x. payload (c_heap st2 x)) [c_free st..<c_free st2] = map s_payload specs"
    using sl(3) alloc_payloads[OF al] o by (simp add: st2_def)
  moreover have "\<forall>x < c_free st. payload (c_heap st2 x) = payload (c_heap st x)"
    using sl(3) ha(3) by (simp add: st2_def st1_def)
  moreover have "\<not> aborted (c_db st2)" "c_free st2 = c_free st + length specs" "errors st2 = errors st"
    "log (c_db st2) = log (c_db st) @ rows" "map row_data rows = map s_payload specs"
    using sl(2,4,5) alloc_payloads[OF al] by (simp_all add: st1_def st2_def)
  ultimately show ?thesis by blast
qed

text \<open>
  The loop of \<open>_scrape\<close> over the numbered units: the errors grow by the promised
  ones, the rows by the promised payloads, and the result by objects carrying them.
\<close>

lemma robust_units_iso:
  assumes "flat_accepted chk (\<lambda>u k. scrape_unit hv u)" and "\<not> aborted (c_db st)"
    and "\<forall>iu\<in>set ius. length (fst (scrape_unit hv (snd iu))) < n" and "\<forall>x\<in>set res. x < c_free st"
  shows "\<exists>st' new rows. robust_units n chk hv ius st res = Some (st', res @ new) \<and>
     \<not> aborted (c_db st') \<and> c_free st \<le> c_free st' \<and>
     (\<forall>x < c_free st. payload (c_heap st' x) = payload (c_heap st x)) \<and> (\<forall>x\<in>set new. x < c_free st') \<and>
     errors st' = errors st @ iso_errors hv ius \<and>
     map (\<lambda>x. payload (c_heap st' x)) new = iso_payloads hv (map snd ius) \<and>
     log (c_db st') = log (c_db st) @ rows \<and> map row_data rows = iso_payloads hv (map snd ius)"
  using assms(2-)
proof (induction ius arbitrary: st res)
  case Nil
  then show ?case by simp
next
  case (Cons iu ius)
  obtain i u where iu: "iu = (i, u)" by fastforce
  obtain specs ex where su: "scrape_unit hv u = (specs, ex)" by fastforce
  have ius: "\<forall>iu\<in>set ius. length (fst (scrape_unit hv (snd iu))) < n" using Cons.prems(2) by simp
  show ?case
  proof (cases ex)
    case (Some e)
    from harvest_raises[of hv u specs e st] su Some obtain st1 where
      h: "harvest hv u st = (st1, Inl e)" "c_db st1 = c_db st" "errors st1 = errors st" "c_free st \<le> c_free st1"
        "\<forall>x < c_free st. c_heap st1 x = c_heap st x" by auto
    define st1' where "st1' = st1\<lparr>errors := errors st1 @ [ScrapeError (Some i) (Some u) e]\<rparr>"
    have "\<forall>x\<in>set res. x < c_free st1'" using Cons.prems(3) h(4) by (auto simp: st1'_def)
    from Cons.IH[OF _ ius this] Cons.prems(1) h(2) obtain st' new rows where
      ih: "robust_units n chk hv ius st1' res = Some (st', res @ new)" "\<not> aborted (c_db st')" "c_free st1' \<le> c_free st'"
        "\<forall>x < c_free st1'. payload (c_heap st' x) = payload (c_heap st1' x)" "\<forall>x\<in>set new. x < c_free st'"
        "errors st' = errors st1' @ iso_errors hv ius"
        "map (\<lambda>x. payload (c_heap st' x)) new = iso_payloads hv (map snd ius)"
        "log (c_db st') = log (c_db st1') @ rows" "map row_data rows = iso_payloads hv (map snd ius)"
      by (auto simp: st1'_def)
    have "robust_units n chk hv ((i, u) # ius) st res = Some (st', res @ new)"
      using h(1) ih(1) by (simp add: st1'_def)
    moreover have "\<forall>x < c_free st. payload (c_heap st' x) = payload (c_heap st x)"
      using ih(4) h(4,5) by (simp add: st1'_def)
    ultimately show ?thesis using ih h Some su iu by (auto simp: st1'_def)
  next
    case None
    have "length specs < n" using Cons.prems(2) su iu by simp
    from harvest_saves[OF assms(1) Cons.prems(1) su[unfolded None] this] obtain st1 st2 rows1 where
      h: "harvest hv u st = (st1, Inr [c_free st..<c_free st2])"
        "sio_st n chk [c_free st..<c_free st2] st1 = Some (st2, [c_free st..<c_free st2], None)"
        "\<not> aborted (c_db st2)" "c_free st2 = c_free st + length specs" "errors st2 = errors st"
        "\<forall>x < c_free st. payload (c_heap st2 x) = payload (c_heap st x)"
        "map (\<lambda>x. payload (c_heap st2 x)) [c_free st..<c_free st2] = map s_payload specs"
        "log (c_db st2) = log (c_db st) @ rows1" "map row_data rows1 = map s_payload specs" by blast
    have "\<forall>x\<in>set (res @ [c_free st..<c_free st2]). x < c_free st2" using Cons.prems(3) h(4) by auto
    from Cons.IH[OF h(3) ius this] obtain st' new rows where
      ih: "robust_units n chk hv ius st2 (res @ [c_free st..<c_free st2]) = Some (st', (res @ [c_free st..<c_free st2]) @ new)"
        "\<not> aborted (c_db st')" "c_free st2 \<le> c_free st'"
        "\<forall>x < c_free st2. payload (c_heap st' x) = payload (c_heap st2 x)" "\<forall>x\<in>set new. x < c_free st'"
        "errors st' = errors st2 @ iso_errors hv ius"
        "map (\<lambda>x. payload (c_heap st' x)) new = iso_payloads hv (map snd ius)"
        "log (c_db st') = log (c_db st2) @ rows" "map row_data rows = iso_payloads hv (map snd ius)" by blast
    have "robust_units n chk hv ((i, u) # ius) st res = Some (st', res @ ([c_free st..<c_free st2] @ new))"
      using h(1,2) ih(1) None by simp
    moreover have "map (\<lambda>x. payload (c_heap st' x)) [c_free st..<c_free st2] = map s_payload specs"
      using map_cong[OF refl, of "[c_free st..<c_free st2]" "\<lambda>x. payload (c_heap st' x)" "\<lambda>x. payload (c_heap st2 x)"]
        ih(4) h(7) by simp
    ultimately show ?thesis
      using ih h None su iu by auto
  qed
qed

lemma map_snd_enumerate0: "map snd (enumerate n xs) = xs"
  by (induction xs arbitrary: n) simp_all

lemma iso_scraper_promise:
  "iso_errors iso_scraper (enumerate 0 [0, 1, 2]) = [ScrapeError (Some 1) (Some 1) (ParseError ''bad page'')]"
  "iso_payloads iso_scraper [0, 1, 2] = [Headline 0, Headline 2]"
  "flat_accepted test_chk (\<lambda>u k. scrape_unit iso_scraper u)"
  by (simp_all add: iso_scraper_def numeral_2_eq_2 flat_accepted_def flat_spec_def test_chk_def)

text \<open>
  C10. Isolation (spec section 8): for every harvester whose discovery succeeds and
  whose articles have no parents in their batch and are accepted,
  \<open>RobustController._scrape\<close> records exactly one \<open>ScrapeError(i, unit, e)\<close> per unit
  whose harvest raises, at the unit's index and in unit order, after the errors it
  had; it writes the articles of every other unit and returns them in unit order;
  and it raises only when no unit gave an article.
\<close>

theorem robust_isolation:
  assumes "get_units hv = (us, None)" and "flat_accepted chk (\<lambda>u k. scrape_unit hv u)"
    and "\<not> aborted (c_db st)" and "\<forall>u\<in>set us. length (fst (scrape_unit hv u)) < n"
  shows "\<exists>st' res rows. robust_scrape n chk hv st = Some (st', if res = [] then Inl no_results else Inr res) \<and>
     errors st' = errors st @ iso_errors hv (enumerate 0 us) \<and>
     map (\<lambda>x. payload (c_heap st' x)) res = iso_payloads hv us \<and>
     log (c_db st') = log (c_db st) @ rows \<and> map row_data rows = iso_payloads hv us"
proof -
  have "\<forall>iu\<in>set (enumerate 0 us). length (fst (scrape_unit hv (snd iu))) < n"
    using assms(4) by (auto simp: in_set_enumerate_eq)
  from robust_units_iso[OF assms(2,3) this, of "[]"] obtain st' new rows where
    r: "robust_units n chk hv (enumerate 0 us) st [] = Some (st', new)"
      "errors st' = errors st @ iso_errors hv (enumerate 0 us)"
      "map (\<lambda>x. payload (c_heap st' x)) new = iso_payloads hv us"
      "log (c_db st') = log (c_db st) @ rows" "map row_data rows = iso_payloads hv us"
    by (auto simp: map_snd_enumerate0)
  then show ?thesis using assms(1) by (auto simp: robust_scrape_def)
qed

theorem robust_isolation_witness:
  "get_units iso_scraper = ([0, 1, 2], None) \<and> flat_accepted test_chk (\<lambda>u k. scrape_unit iso_scraper u) \<and>
   \<not> aborted (c_db ex_state) \<and> length (fst (scrape_unit iso_scraper 0)) < 2 \<and>
   length (fst (scrape_unit iso_scraper 1)) < 2 \<and> length (fst (scrape_unit iso_scraper 2)) < 2 \<and>
   (\<exists>st' res rows. robust_scrape 2 test_chk iso_scraper ex_state = Some (st', Inr res) \<and>
      errors st' = [ScrapeError (Some 1) (Some 1) (ParseError ''bad page'')] \<and>
      map (\<lambda>x. payload (c_heap st' x)) res = [Headline 0, Headline 2] \<and>
      log (c_db st') = rows \<and> map row_data rows = [Headline 0, Headline 2])"
proof -
  have g: "get_units iso_scraper = ([0, 1, 2], None)" by (simp add: iso_scraper_def)
  have d: "\<not> aborted (c_db ex_state)" by (simp add: ex_state_def)
  have l: "\<forall>u\<in>set [0, 1, 2]. length (fst (scrape_unit iso_scraper u)) < (2::nat)" by (simp add: iso_scraper_def)
  have e: "errors ex_state = []" "log (c_db ex_state) = []" by (simp_all add: ex_state_def)
  from robust_isolation[OF g iso_scraper_promise(3) d l] obtain st' res rows where
    r: "robust_scrape 2 test_chk iso_scraper ex_state = Some (st', if res = [] then Inl no_results else Inr res)"
      "errors st' = errors ex_state @ iso_errors iso_scraper (enumerate 0 [0, 1, 2])"
      "map (\<lambda>x. payload (c_heap st' x)) res = iso_payloads iso_scraper [0, 1, 2]"
      "log (c_db st') = log (c_db ex_state) @ rows" "map row_data rows = iso_payloads iso_scraper [0, 1, 2]"
    by blast
  have p: "map (\<lambda>x. payload (c_heap st' x)) res = [Headline 0, Headline 2]"
    "map row_data rows = [Headline 0, Headline 2]"
    using r(3,5) by (simp_all only: iso_scraper_promise(2))
  then have "res \<noteq> []" by auto
  with r(1,2,4) p g d l iso_scraper_promise(1,3) e show ?thesis by (auto simp: iso_scraper_def)
qed

end
