(* ===== verification/Upload_Parse.thy ===== *)
theory Upload_Parse
  imports Prelude "HOL-Library.AList"
begin

text \<open>
  The parsing half of \<open>src/amcat/scripts/article_upload/upload.py\<close>: how an upload
  script turns one uploaded file into a stream of articles and per-article errors.
  \<open>UploadScript.article_from_dict\<close> (lines 230--254) maps a parsed row, a Python
  dictionary, through the user's field map onto an \<open>Article\<close>; \<open>_scrape_unit\<close>
  (217--228) converts what a subclass's \<open>parse_document\<close> returns; \<open>parse_file\<close>
  (145--151) runs the units of one file and rewrites a \<open>ParseError\<close> with the unit's
  1-based number through \<open>explain_error\<close> (119--122).  Dictionaries are association
  lists (insertion order, as in Python 3), Python's \<open>None\<close> is \<open>None\<close>.
\<close>

section \<open>Python dictionaries\<close>

text \<open>
  A dictionary from strings to values that may be \<open>None\<close>: \<open>d.get(k)\<close> is \<open>None\<close> both
  for a missing key and for a key mapped to \<open>None\<close>; \<open>d.pop(k, None)\<close> also removes the
  key.  Assignment \<open>d[k] = v\<close> is \<^const>\<open>AList.update\<close>, which keeps the position of an
  existing key and appends a new one, like Python's insertion order.
\<close>

type_synonym 'v pydict = "(string \<times> 'v option) list"

definition dict_get :: "'v pydict \<Rightarrow> string \<Rightarrow> 'v option" where
  "dict_get d k = (case map_of d k of None \<Rightarrow> None | Some v \<Rightarrow> v)"

definition dict_pop :: "'v pydict \<Rightarrow> string \<Rightarrow> 'v option \<times> 'v pydict" where
  "dict_pop d k = (dict_get d k, AList.delete k d)"

section \<open>Exceptions of the upload scripts\<close>

text \<open>
  \<open>except ParseError\<close> catches \<open>ParseError\<close> and its subclasses \<open>ArticleError\<close> and
  \<open>MissingValueError\<close> (lines 41--51).  \<open>str(e)\<close> of such an exception is its message;
  \<open>MissingValueError(field)\<close> builds the message \<open>Missing value for field: 'field'\<close>.  The
  message of the two-argument \<open>ParseError\<close> of \<open>run\<close> is the \<open>repr\<close> of its argument
  tuple, which is not modelled (no parser raises it); nor are the messages of the
  storage errors, which no code of this file prints.
\<close>

fun is_parse_error :: "exc \<Rightarrow> bool" where
  "is_parse_error (ParseError m) = True"
| "is_parse_error (MissingValueError f) = True"
| "is_parse_error (ParseErrorArgs es aes) = True"
| "is_parse_error _ = False"

definition quote_char :: char where
  "quote_char = CHR 0x27"

fun exc_str :: "exc \<Rightarrow> string" where
  "exc_str (ParseError m) = m"
| "exc_str (MissingValueError f) = ''Missing value for field: '' @ [quote_char] @ f @ [quote_char]"
| "exc_str (ValueError m) = m"
| "exc_str (NameError m) = m"
| "exc_str (TypeError m) = m"
| "exc_str (Exception m) = m"
| "exc_str _ = ''''"

section \<open>UploadScript.explain_error\<close>

text \<open>
  \<open>"{}".format(i)\<close> of a Python int: its decimal digits.
\<close>

definition digit_char :: "nat \<Rightarrow> char" where
  "digit_char d = ''0123456789'' ! d"

fun nat_str :: "nat \<Rightarrow> string" where
  "nat_str n = (if n < 10 then [digit_char n] else nat_str (n div 10) @ [digit_char (n mod 10)])"

declare nat_str.simps [simp del]

text \<open>
  \<^verbatim>\<open>
  def explain_error(self, error, article=None):
      index = " {}".format(article) if article is not None else ""
      return "Error in article or filepart{}: {}.".format(index, error)
  \<close>
  The \<open>error\<close> argument is given as its \<open>str\<close>.
\<close>

definition explain_error :: "string \<Rightarrow> nat option \<Rightarrow> string" where
  "explain_error err article =
     (let index = (case article of Some i \<Rightarrow> '' '' @ nat_str i | None \<Rightarrow> '''')
      in ''Error in article or filepart'' @ index @ '': '' @ err @ ''.'')"

section \<open>UploadScript.article_from_dict\<close>

text \<open>
  One entry of \<open>options['field_map']\<close>: whether it has a \<open>'column'\<close> key and which,
  the truth value of \<open>field_from.get('use_default')\<close>, and whether it has a
  \<open>'value'\<close> key and which.
\<close>

record 'v field_from =
  ff_column :: "string option"
  ff_use_default :: bool
  ff_value :: "'v option option"

type_synonym 'v field_map = "(string \<times> 'v field_from) list"

definition article_fields :: "string list" where
  "article_fields = [''text'', ''title'', ''url'', ''date'', ''parent_hash'']"

text \<open>
  \<^verbatim>\<open>
  value = None
  if 'column' in field_from:
      value = parse_dict.get(field_from['column'])
  if value is None and (field_from.get('use_default') or 'column' not in field_from):
      try:
          value = field_from['value']
      except KeyError:
          raise MissingValueError(field_to)
  mapped_fields[field_to] = value
  \<close>
\<close>

definition map_field :: "'v pydict \<Rightarrow> string \<Rightarrow> 'v field_from \<Rightarrow> exc + 'v option" where
  "map_field pd field_to ff =
     (let value = (case ff_column ff of Some c \<Rightarrow> dict_get pd c | None \<Rightarrow> None)
      in if value = None \<and> (ff_use_default ff \<or> ff_column ff = None)
         then (case ff_value ff of Some v \<Rightarrow> Inr v | None \<Rightarrow> Inl (MissingValueError field_to))
         else Inr value)"

fun map_fields :: "'v pydict \<Rightarrow> 'v field_map \<Rightarrow> 'v pydict \<Rightarrow> exc + 'v pydict" where
  "map_fields pd [] acc = Inr acc"
| "map_fields pd ((field_to, ff) # fm) acc =
     (case map_field pd field_to ff of
        Inl e \<Rightarrow> Inl e
      | Inr v \<Rightarrow> map_fields pd fm (AList.update field_to v acc))"

text \<open>\<open>mapped_fields\<close>, empty when the options have no \<open>'field_map'\<close>.\<close>

definition mapped_fields :: "'v field_map option \<Rightarrow> 'v pydict \<Rightarrow> exc + 'v pydict" where
  "mapped_fields fmo pd = (case fmo of None \<Rightarrow> Inr [] | Some fm \<Rightarrow> map_fields pd fm [])"

text \<open>\<open>article_kwargs[f] = mapped_fields.pop(f, None)\<close> for each article field, in order.\<close>

fun pop_fields :: "string list \<Rightarrow> 'v pydict \<Rightarrow> 'v pydict \<times> 'v pydict" where
  "pop_fields [] m = ([], m)"
| "pop_fields (f # fs) m = (case dict_pop m f of (v, m') \<Rightarrow> apfst (Cons (f, v)) (pop_fields fs m'))"

text \<open>An \<open>Article\<close> as the upload scripts build it: the five fields, the properties and the project.\<close>

record 'v uarticle =
  a_text :: "'v option"
  a_title :: "'v option"
  a_url :: "'v option"
  a_date :: "'v option"
  a_parent_hash :: "'v option"
  a_properties :: "'v pydict"
  a_project :: "nat option"

text \<open>\<open>Article(**article_kwargs)\<close> with \<open>article_kwargs['properties'] = mapped_fields\<close>.\<close>

definition make_article :: "'v pydict \<Rightarrow> 'v pydict \<Rightarrow> 'v uarticle" where
  "make_article kw props =
     \<lparr>a_text = dict_get kw ''text'', a_title = dict_get kw ''title'', a_url = dict_get kw ''url'',
      a_date = dict_get kw ''date'', a_parent_hash = dict_get kw ''parent_hash'',
      a_properties = props, a_project = None\<rparr>"

text \<open>
  \<open>get_required()\<close> fills the module-level cache \<open>_required\<close> with the article
  fields the \<open>Article\<close> model does not allow to be blank, unless it is already
  filled; it returns the new cache.  \<open>article_from_dict\<close> iterates over this set in
  Python's set order, which the model takes as a list \<open>req\<close> with these elements.
\<close>

definition get_required :: "(string \<Rightarrow> bool) \<Rightarrow> string set \<Rightarrow> string set" where
  "get_required blank cache = (if cache = {} then set (filter (\<lambda>f. \<not> blank f) article_fields) else cache)"

definition article_from_dict :: "'v field_map option \<Rightarrow> string list \<Rightarrow> 'v pydict \<Rightarrow> exc + 'v uarticle" where
  "article_from_dict fmo req pd =
     (case mapped_fields fmo pd of
        Inl e \<Rightarrow> Inl e
      | Inr mapped \<Rightarrow>
          (case pop_fields article_fields mapped of
             (kw, rest) \<Rightarrow>
               (case find (\<lambda>f. dict_get kw f = None) req of
                  Some f \<Rightarrow> Inl (MissingValueError f)
                | None \<Rightarrow> Inr (make_article kw rest))))"

section \<open>UploadScript._scrape_unit and parse_file\<close>

text \<open>
  What a subclass's \<open>parse_document(document)\<close> returns: one \<open>Article\<close>, a sequence
  (possibly a generator that raises) of articles, dictionaries and other objects
  (legacy parsers yield exception objects), or \<open>None\<close>; it may also raise.
\<close>

datatype 'v pitem = PIArticle "'v uarticle" | PIDict "'v pydict" | PIError exc

datatype 'v parsed = PArticle "'v uarticle" | PItems "'v pitem gen" | PNoneResult

text \<open>An object \<open>_scrape_unit\<close> yields: an \<open>Article\<close>, or anything else (an error).\<close>

datatype 'v uitem = UArt "'v uarticle" | UErr exc

fun convert_item :: "'v field_map option \<Rightarrow> string list \<Rightarrow> 'v pitem \<Rightarrow> 'v uitem" where
  "convert_item fmo req (PIArticle a) = UArt a"
| "convert_item fmo req (PIDict d) = (case article_from_dict fmo req d of Inl e \<Rightarrow> UErr e | Inr a \<Rightarrow> UArt a)"
| "convert_item fmo req (PIError e) = UErr e"

text \<open>
  \<^verbatim>\<open>
  def _scrape_unit(self, document):
      result = self.parse_document(document)
      if isinstance(result, Article):
          result = [result]
      for art in result:
          if isinstance(art, dict):
              try:
                  yield self.article_from_dict(art)
              except ArticleError as e:
                  yield e
          else:
              yield art
  \<close>
  Iterating over \<open>None\<close> raises \<open>TypeError\<close>.  Every exception \<open>article_from_dict\<close>
  raises is a \<open>MissingValueError\<close> (\<open>article_from_dict_error\<close>), so the
  \<open>except ArticleError\<close> clause catches all of them.
\<close>

definition scrape_unit_u :: "'v field_map option \<Rightarrow> string list \<Rightarrow> ('d \<Rightarrow> exc + 'v parsed) \<Rightarrow> 'd \<Rightarrow> 'v uitem gen" where
  "scrape_unit_u fmo req pdoc doc =
     (case pdoc doc of
        Inl e \<Rightarrow> ([], Some e)
      | Inr (PArticle a) \<Rightarrow> ([UArt a], None)
      | Inr (PItems (xs, ex)) \<Rightarrow> (map (convert_item fmo req) xs, ex)
      | Inr PNoneResult \<Rightarrow> ([], Some (TypeError ''NoneType object is not iterable'')))"

text \<open>
  \<^verbatim>\<open>
  def parse_file(self, file):
      for i, unit in enumerate(self._get_units(file), 1):
          try:
              for a in self._scrape_unit(unit):
                  yield a
          except ParseError as e:
              raise ParseError("{}".format(self.explain_error(e, article=i)))
  \<close>
  \<open>parse_units i ds\<close> runs the units \<open>ds\<close> numbered from \<open>i\<close>; \<open>parse_file\<close> takes the
  value of \<open>self._get_units(file)\<close> as a generator, whose own exception is raised by
  the \<open>for\<close> statement, outside the \<open>try\<close>.  \<open>split_file\<close> is the default
  \<open>_get_units\<close>: the file as its only unit.
\<close>

fun parse_units :: "'v field_map option \<Rightarrow> string list \<Rightarrow> ('d \<Rightarrow> exc + 'v parsed) \<Rightarrow> nat \<Rightarrow> 'd list \<Rightarrow> 'v uitem gen" where
  "parse_units fmo req pdoc i [] = ([], None)"
| "parse_units fmo req pdoc i (d # ds) =
     (case scrape_unit_u fmo req pdoc d of
        (ys, None) \<Rightarrow> apfst ((@) ys) (parse_units fmo req pdoc (Suc i) ds)
      | (ys, Some e) \<Rightarrow>
          (ys, Some (if is_parse_error e then ParseError (explain_error (exc_str e) (Some i)) else e)))"

definition parse_file :: "'v field_map option \<Rightarrow> string list \<Rightarrow> ('d \<Rightarrow> exc + 'v parsed) \<Rightarrow> 'd gen \<Rightarrow> 'v uitem gen" where
  "parse_file fmo req pdoc units =
     (case units of
        (ds, ex) \<Rightarrow>
          (case parse_units fmo req pdoc 1 ds of
             (ys, None) \<Rightarrow> (ys, ex)
           | (ys, Some e) \<Rightarrow> (ys, Some e)))"

definition split_file :: "'f \<Rightarrow> 'f gen" where
  "split_file file = ([file], None)"

section \<open>Reading an article back, and reading a number back\<close>

text \<open>
  The fields of an article as a dictionary: the five article fields, then its
  properties.  A field map that reads each field from the column of the same name.
  The reader of decimal digits, inverse of \<open>nat_str\<close>.
\<close>

definition article_dict :: "'v uarticle \<Rightarrow> 'v pydict" where
  "article_dict a =
     [(''text'', a_text a), (''title'', a_title a), (''url'', a_url a), (''date'', a_date a),
      (''parent_hash'', a_parent_hash a)] @ a_properties a"

definition column_map :: "string list \<Rightarrow> 'v field_map" where
  "column_map ks = map (\<lambda>k. (k, \<lparr>ff_column = Some k, ff_use_default = False, ff_value = None\<rparr>)) ks"

definition str_nat :: "string \<Rightarrow> nat" where
  "str_nat s = foldl (\<lambda>n c. 10 * n + (of_char c - 48)) 0 s"

definition ex_row :: "string pydict" where
  "ex_row = [(''title'', Some ''Hello''), (''body'', Some ''World''), (''date'', None)]"
definition ex_parser :: "string pydict \<Rightarrow> exc + string parsed" where
  "ex_parser d = (if d = [] then Inl (ParseError ''empty row'') else Inr (PItems ([PIDict d], None)))"
definition ex_article :: "string uarticle" where
  "ex_article = make_article [(''text'', None), (''title'', Some ''Hello''), (''url'', None), (''date'', None),
     (''parent_hash'', None)] [(''body'', Some ''World'')]"

section \<open>Properties of the upload parser\<close>

lemma dict_get_append: "dict_get (xs @ ys) k = (case map_of xs k of None \<Rightarrow> dict_get ys k | Some v \<Rightarrow> v)"
  by (simp add: dict_get_def map_add_def split: option.splits)

lemma dict_get_filter: "dict_get (filter (\<lambda>p. fst p \<notin> S) m) k = (if k \<in> S then None else dict_get m k)"
  by (induction m) (auto simp: dict_get_def)

lemma dict_get_delete: "dict_get (AList.delete f m) k = (if k = f then None else dict_get m k)"
  by (simp add: dict_get_def delete_conv)

lemma pop_fields_eq:
  "distinct fs \<Longrightarrow> pop_fields fs m = (map (\<lambda>f. (f, dict_get m f)) fs, filter (\<lambda>p. fst p \<notin> set fs) m)"
proof (induction fs arbitrary: m)
  case Nil
  then show ?case by simp
next
  case (Cons f fs)
  then have f: "f \<notin> set fs" "distinct fs" by auto
  have m: "map (\<lambda>g. (g, dict_get (AList.delete f m) g)) fs = map (\<lambda>g. (g, dict_get m g)) fs"
    using f(1) by (auto simp: dict_get_delete)
  have r: "filter (\<lambda>p. fst p \<notin> set fs) (AList.delete f m) = filter (\<lambda>p. fst p \<notin> set (f # fs)) m"
    by (auto simp: AList.delete_eq filter_filter split_def intro: filter_cong)
  show ?case by (simp add: dict_pop_def Cons.IH[OF f(2)] m r)
qed

lemma article_fields_distinct [simp]: "distinct article_fields"
  by (simp add: article_fields_def)

lemma article_from_dict_eq:
  "article_from_dict fmo req pd =
     (case mapped_fields fmo pd of
        Inl e \<Rightarrow> Inl e
      | Inr m \<Rightarrow>
          (case find (\<lambda>f. dict_get (map (\<lambda>f. (f, dict_get m f)) article_fields) f = None) req of
             Some f \<Rightarrow> Inl (MissingValueError f)
           | None \<Rightarrow> Inr (make_article (map (\<lambda>f. (f, dict_get m f)) article_fields)
                                     (filter (\<lambda>p. fst p \<notin> set article_fields) m))))"
  by (simp add: article_from_dict_def pop_fields_eq split: sum.splits)

lemma map_of_fields: "map_of (map (\<lambda>f. (f, g f)) fs) k = (if k \<in> set fs then Some (g k) else None)"
  by (induction fs) auto

lemma article_dict_make:
  "article_dict (make_article (map (\<lambda>f. (f, g f)) article_fields) props) = map (\<lambda>f. (f, g f)) article_fields @ props"
  by (simp add: article_dict_def make_article_def article_fields_def dict_get_def)

lemma dict_get_fields: "dict_get (map (\<lambda>f. (f, g f)) fs) k = (if k \<in> set fs then g k else None)"
  by (induction fs) (auto simp: dict_get_def)

lemma article_readback:
  assumes "article_from_dict fmo req pd = Inr a" and "mapped_fields fmo pd = Inr m"
  shows "dict_get (article_dict a) k = dict_get m k"
proof -
  from assms have a: "a = make_article (map (\<lambda>f. (f, dict_get m f)) article_fields)
                              (filter (\<lambda>p. fst p \<notin> set article_fields) m)"
    by (auto simp: article_from_dict_eq split: option.splits)
  show ?thesis
    by (simp add: a article_dict_make dict_get_append dict_get_filter map_of_fields)
qed

lemma article_properties_disjoint:
  assumes "article_from_dict fmo req pd = Inr a"
  shows "set (map fst (a_properties a)) \<inter> set article_fields = {}"
  using assms by (auto simp: article_from_dict_eq make_article_def split: sum.splits option.splits)

lemma map_field_Inl:
  "map_field pd t ff = Inl e \<longleftrightarrow>
     e = MissingValueError t \<and> ff_value ff = None \<and> (ff_use_default ff \<or> ff_column ff = None) \<and>
     (case ff_column ff of Some c \<Rightarrow> dict_get pd c = None | None \<Rightarrow> True)"
  by (auto simp: map_field_def Let_def split: option.splits)

lemma map_fields_Inl:
  "map_fields pd fm acc = Inl e \<Longrightarrow> \<exists>t ff. (t, ff) \<in> set fm \<and> map_field pd t ff = Inl e"
  by (induction pd fm acc rule: map_fields.induct) (fastforce split: sum.splits)+

lemma article_from_dict_error:
  assumes "article_from_dict fmo req pd = Inl e"
  shows "\<exists>f. e = MissingValueError f"
proof -
  have "map_fields pd fm acc = Inl e \<Longrightarrow> \<exists>f. e = MissingValueError f" for fm acc
    by (auto dest!: map_fields_Inl simp: map_field_Inl)
  with assms show ?thesis
    by (auto simp: article_from_dict_eq mapped_fields_def split: sum.splits option.splits)
qed

lemma update_new: "k \<notin> set (map fst acc) \<Longrightarrow> AList.update k v acc = acc @ [(k, v)]"
  by (induction acc) auto

lemma map_fields_columns:
  "distinct ks \<Longrightarrow> set ks \<inter> set (map fst acc) = {} \<Longrightarrow>
     map_fields pd (column_map ks) acc = Inr (acc @ map (\<lambda>k. (k, dict_get pd k)) ks)"
proof (induction ks arbitrary: acc)
  case Nil
  then show ?case by (simp add: column_map_def)
next
  case (Cons k ks)
  then have "map_fields pd (column_map ks) (acc @ [(k, dict_get pd k)]) =
               Inr ((acc @ [(k, dict_get pd k)]) @ map (\<lambda>k. (k, dict_get pd k)) ks)"
    by auto
  with Cons.prems show ?case
    by (simp add: column_map_def map_field_def update_new)
qed

text \<open>
  C16. Round trip through \<open>article_from_dict\<close>: with a field map that reads each
  field from the column of the same name (distinct names), every column of the row can
  be read back from the article the upload builds, from an article field or from its
  properties, whichever holds it.
\<close>

theorem article_from_dict_roundtrip:
  assumes "distinct ks" and "article_from_dict (Some (column_map ks)) req pd = Inr a" and "k \<in> set ks"
  shows "dict_get (article_dict a) k = dict_get pd k"
proof -
  from assms(1) have "mapped_fields (Some (column_map ks)) pd = Inr (map (\<lambda>k. (k, dict_get pd k)) ks)"
    using map_fields_columns[of ks "[]" pd] by (simp add: mapped_fields_def)
  from article_readback[OF assms(2) this] assms(3) show ?thesis
    by (simp add: dict_get_fields)
qed

text \<open>
  C17. \<open>article_from_dict\<close> returns an article exactly when the field map resolves every
  field and every required field is an article field with a value other than \<open>None\<close>;
  otherwise it raises.
\<close>

theorem article_from_dict_success:
  "(\<exists>a. article_from_dict fmo req pd = Inr a) \<longleftrightarrow>
     (\<exists>m. mapped_fields fmo pd = Inr m \<and> (\<forall>f \<in> set req. f \<in> set article_fields \<and> dict_get m f \<noteq> None))"
  by (auto simp: article_from_dict_eq dict_get_fields find_None_iff split: sum.splits option.splits
      dest!: find_SomeD)

text \<open>
  C18. The field map fails only on an entry without a \<open>'value'\<close> key that is a default or
  constant entry (\<open>use_default\<close> set or no \<open>'column'\<close>) whose column is absent or
  \<open>None\<close> in the row; the error is \<open>MissingValueError\<close> for that entry's target field.
\<close>

theorem map_fields_missing:
  assumes "mapped_fields (Some fm) pd = Inl e"
  shows "\<exists>t ff. (t, ff) \<in> set fm \<and> e = MissingValueError t \<and> ff_value ff = None \<and>
           (ff_use_default ff \<or> ff_column ff = None) \<and>
           (case ff_column ff of Some c \<Rightarrow> dict_get pd c = None | None \<Rightarrow> True)"
  using map_fields_Inl[of pd fm "[]" e] assms by (auto simp: mapped_fields_def map_field_Inl)

lemma of_char_digit: "d < 10 \<Longrightarrow> of_char (digit_char d) = 48 + d"
  by (auto simp: digit_char_def less_Suc_eq numeral_eq_Suc)

lemma str_nat_snoc: "str_nat (xs @ [c]) = 10 * str_nat xs + (of_char c - 48)"
  by (simp add: str_nat_def)

text \<open>
  The unit number printed into an error message (\<open>"{}".format(i)\<close>) reads back as the
  same number.
\<close>

lemma nat_str_roundtrip: "str_nat (nat_str n) = n"
proof (induction n rule: nat_str.induct)
  case (1 n)
  show ?case
  proof (cases "n < 10")
    case True
    then show ?thesis by (simp add: nat_str.simps str_nat_def of_char_digit)
  next
    case False
    then have "str_nat (nat_str n) = 10 * str_nat (nat_str (n div 10)) + n mod 10"
      by (simp add: nat_str.simps[of n] str_nat_snoc of_char_digit)
    with 1 False show ?thesis by simp
  qed
qed

text \<open>
  Two messages of \<open>explain_error\<close> for the same error but different units differ: the
  message identifies the unit.
\<close>

lemma explain_error_inj:
  assumes "explain_error m (Some i) = explain_error m (Some j)"
  shows "i = j"
proof -
  from assms have "nat_str i = nat_str j" by (simp add: explain_error_def)
  then have "str_nat (nat_str i) = str_nat (nat_str j)" by simp
  then show ?thesis by (simp only: nat_str_roundtrip)
qed

lemma explain_error_inj_example:
  "explain_error ''bad row'' (Some 12) = explain_error ''bad row'' (Some 12) \<and>
   explain_error ''bad row'' (Some 12) = ''Error in article or filepart 12: bad row.''"
  using explain_error_inj[of "''bad row''" 12 12]
  by (simp add: explain_error_def nat_str.simps digit_char_def)

lemma parse_units_ok:
  "(\<forall>d \<in> set ds. snd (scrape_unit_u fmo req pdoc d) = None) \<Longrightarrow>
   parse_units fmo req pdoc i ds = (concat (map (\<lambda>d. fst (scrape_unit_u fmo req pdoc d)) ds), None)"
  by (induction ds arbitrary: i) (auto split: prod.splits option.splits)

lemma parse_units_fail:
  "(\<forall>d \<in> set pre. snd (scrape_unit_u fmo req pdoc d) = None) \<Longrightarrow> scrape_unit_u fmo req pdoc d = (ys, Some e) \<Longrightarrow>
   parse_units fmo req pdoc i (pre @ d # post) =
     (concat (map (\<lambda>d. fst (scrape_unit_u fmo req pdoc d)) pre) @ ys,
      Some (if is_parse_error e then ParseError (explain_error (exc_str e) (Some (i + length pre))) else e))"
  by (induction pre arbitrary: i) (auto split: prod.splits option.splits)

text \<open>
  C19. \<open>parse_file\<close> yields the items of the units before a failing unit and those the
  failing unit yielded before raising, then raises: a \<open>ParseError\<close> family exception
  becomes \<open>ParseError\<close> with the explained message carrying the unit's 1-based
  position; any other exception propagates unchanged.
\<close>

theorem parse_file_error:
  assumes "\<forall>d \<in> set pre. snd (scrape_unit_u fmo req pdoc d) = None"
    and "scrape_unit_u fmo req pdoc d = (ys, Some e)"
  shows "parse_file fmo req pdoc (pre @ d # post, ex) =
     (concat (map (\<lambda>d. fst (scrape_unit_u fmo req pdoc d)) pre) @ ys,
      Some (if is_parse_error e then ParseError (explain_error (exc_str e) (Some (Suc (length pre)))) else e))"
  using parse_units_fail[OF assms, of 1 post] by (simp add: parse_file_def)

text \<open>
  When no unit raises, \<open>parse_file\<close> yields the items of all units in order and ends
  as the unit generator ends (an exception of \<open>_get_units\<close> itself is not rewritten).
\<close>

lemma parse_file_ok:
  assumes "\<forall>d \<in> set ds. snd (scrape_unit_u fmo req pdoc d) = None"
  shows "parse_file fmo req pdoc (ds, ex) = (concat (map (\<lambda>d. fst (scrape_unit_u fmo req pdoc d)) ds), ex)"
  using parse_units_ok[OF assms, of 1] by (simp add: parse_file_def)

theorem parse_file_error_witness:
  "snd (scrape_unit_u None [] ex_parser ex_row) = None \<and>
   scrape_unit_u None [] ex_parser [] = ([], Some (ParseError ''empty row'')) \<and>
   parse_file None [] ex_parser ([ex_row, [], ex_row], None) =
     (fst (scrape_unit_u None [] ex_parser ex_row),
      Some (ParseError ''Error in article or filepart 2: empty row.''))"
proof -
  have a: "\<forall>d \<in> set [ex_row]. snd (scrape_unit_u None [] ex_parser d) = None"
    and b: "scrape_unit_u None [] ex_parser [] = ([], Some (ParseError ''empty row''))"
    by (simp_all add: scrape_unit_u_def ex_parser_def ex_row_def)
  from parse_file_error[OF a b, of "[ex_row]" None] a b show ?thesis
    by (simp add: explain_error_def nat_str.simps digit_char_def)
qed

theorem article_from_dict_roundtrip_witness:
  "distinct [''title'', ''body''] \<and>
   article_from_dict (Some (column_map [''title'', ''body''])) [''title''] ex_row = Inr ex_article \<and>
   ''body'' \<in> set [''title'', ''body''] \<and> dict_get (article_dict ex_article) ''body'' = Some ''World''"
proof -
  have r: "article_from_dict (Some (column_map [''title'', ''body''])) [''title''] ex_row = Inr ex_article"
    by (simp add: article_from_dict_def mapped_fields_def column_map_def map_field_def ex_row_def
        ex_article_def dict_get_def dict_pop_def article_fields_def)
  from article_from_dict_roundtrip[OF _ r, of "''body''"] r show ?thesis
    by (simp add: ex_row_def dict_get_def)
qed

theorem article_from_dict_success_witness:
  "mapped_fields (Some (column_map [''title'', ''date''])) ex_row = Inr [(''title'', Some ''Hello''), (''date'', None)] \<and>
   \<not> (\<exists>a. article_from_dict (Some (column_map [''title'', ''date''])) [''title'', ''date''] ex_row = Inr a)"
proof -
  have m: "mapped_fields (Some (column_map [''title'', ''date''])) ex_row = Inr [(''title'', Some ''Hello''), (''date'', None)]"
    by (simp add: mapped_fields_def column_map_def map_field_def ex_row_def dict_get_def)
  from article_from_dict_success[of "Some (column_map [''title'', ''date''])" "[''title'', ''date'']" ex_row] m
  show ?thesis by (simp add: dict_get_def)
qed

theorem map_fields_missing_witness:
  "mapped_fields (Some [(''date'', \<lparr>ff_column = Some ''date'', ff_use_default = True, ff_value = None\<rparr>)]) ex_row =
     Inl (MissingValueError ''date'') \<and>
   (\<exists>t ff. (t, ff) \<in> set [(''date'', \<lparr>ff_column = Some ''date'', ff_use_default = True, ff_value = (None :: string option option)\<rparr>)] \<and>
      MissingValueError ''date'' = MissingValueError t \<and> ff_value ff = None \<and>
      (ff_use_default ff \<or> ff_column ff = None) \<and>
      (case ff_column ff of Some c \<Rightarrow> dict_get ex_row c = None | None \<Rightarrow> True))"
proof -
  have m: "mapped_fields (Some [(''date'', \<lparr>ff_column = Some ''date'', ff_use_default = True, ff_value = None\<rparr>)]) ex_row =
     Inl (MissingValueError ''date'')"
    by (simp add: mapped_fields_def map_field_def ex_row_def dict_get_def)
  from map_fields_missing[OF m] m show ?thesis by blast
qed

lemma parse_file_ok_example:
  "snd (scrape_unit_u (Some (column_map [''title'', ''body''])) [''title''] ex_parser ex_row) = None \<and>
   parse_file (Some (column_map [''title'', ''body''])) [''title''] ex_parser ([ex_row], None) = ([UArt ex_article], None)"
proof -
  have a: "\<forall>d \<in> set [ex_row]. snd (scrape_unit_u (Some (column_map [''title'', ''body''])) [''title''] ex_parser d) = None"
    by (simp add: scrape_unit_u_def ex_parser_def ex_row_def)
  have r: "article_from_dict (Some (column_map [''title'', ''body''])) [''title''] ex_row = Inr ex_article"
    by (simp add: article_from_dict_def mapped_fields_def column_map_def map_field_def ex_row_def
        ex_article_def dict_get_def dict_pop_def article_fields_def)
  from parse_file_ok[OF a, of None] r show ?thesis
    by (simp add: scrape_unit_u_def ex_parser_def ex_row_def)
qed

end
