(* ===== verification/Upload_Run.thy ===== *)
theory Upload_Run
  imports Upload_Parse
begin

text \<open>
  The driving half of \<open>src/amcat/scripts/article_upload/upload.py\<close>:
  \<open>UploadForm.clean_articleset_name\<close> (lines 68--80), the memoising property
  \<open>UploadScript.articlesets\<close> (107--117), \<open>get_provenance\<close> (138--143), \<open>run\<close>
  (153--202), which parses every uploaded file, stops on any per-article error, and
  otherwise creates the articles in the target sets and appends a provenance line to
  each set, and \<open>_set_project\<close> (276--281).  The database (\<open>ArticleSet\<close> rows and
  \<open>Article.create_articles\<close>) is external: it is modelled as the state below.
\<close>

section \<open>UploadForm.clean_articleset_name\<close>

text \<open>\<open>os.path.basename\<close>: the part after the last slash.\<close>

definition basename :: "string \<Rightarrow> string" where
  "basename p = rev (takeWhile (\<lambda>c. c \<noteq> CHR ''/'') (rev p))"

text \<open>
  \<^verbatim>\<open>
  if 'articlesets' in self.errors:
      return
  if self.files.get('file') and not (
          self.cleaned_data.get('articleset_name') or self.cleaned_data.get('articleset')):
      fn = os.path.basename(self.files['file'].name)
      return fn
  name = self.cleaned_data['articleset_name']
  if not bool(name) ^ bool(self.cleaned_data['articlesets']):
      raise forms.ValidationError("Please specify either articleset or articleset_name")
  return name
  \<close>
  The arguments: whether the \<open>articlesets\<close> field has an error, the name of the uploaded
  file (if any), and the cleaned \<open>articleset_name\<close> and \<open>articlesets\<close>.  The form has no
  field \<open>articleset\<close>, so \<open>cleaned_data.get('articleset')\<close> is always \<open>None\<close>.
\<close>

definition clean_articleset_name ::
  "bool \<Rightarrow> string option \<Rightarrow> string \<Rightarrow> nat list \<Rightarrow> exc + string option" where
  "clean_articleset_name sets_error file name sets =
     (if sets_error then Inr None
      else if file \<noteq> None \<and> \<not> (name \<noteq> [] \<or> False) then Inr (Some (basename (the file)))
      else if \<not> ((name \<noteq> []) \<noteq> (sets \<noteq> []))
      then Inl (ValidationError ''Please specify either articleset or articleset_name'')
      else Inr (Some name))"

section \<open>The upload script's state\<close>

text \<open>
  The state \<open>run\<close> reads and writes: \<open>self.errors\<close>, the options \<open>articlesets\<close> (set ids)
  and \<open>articleset_name\<close>, \<open>self.project\<close>; and the database: the id the next new
  \<open>ArticleSet\<close> gets, the sets created (id and name), each set's members and
  provenance, and the stored articles (an article's id is its position).
\<close>

record 'v ustate =
  u_errors :: "exc list"
  u_articlesets :: "nat list"
  u_set_name :: string
  u_project :: nat
  u_next_set :: nat
  u_created_sets :: "(nat \<times> string) list"
  u_members :: "nat \<Rightarrow> nat list"
  u_provenance :: "nat \<Rightarrow> string option"
  u_store :: "'v uarticle list"

text \<open>
  \<^verbatim>\<open>
  @property
  def articlesets(self):
      if self.options['articlesets']:
          return self.options['articlesets']
      if self.options['articleset_name']:
          aset = create_new_articleset(self.options['articleset_name'], self.project)
          self.options['articlesets'] = (aset,)
          return (aset,)
      return ()
  \<close>
\<close>

definition articlesets :: "'v ustate \<Rightarrow> 'v ustate \<times> nat list" where
  "articlesets st =
     (if u_articlesets st \<noteq> [] then (st, u_articlesets st)
      else if u_set_name st \<noteq> [] then
        (let a = u_next_set st
         in (st\<lparr>u_next_set := Suc a, u_created_sets := u_created_sets st @ [(a, u_set_name st)],
                u_provenance := (u_provenance st)(a := None), u_articlesets := [a]\<rparr>, [a]))
      else (st, []))"

text \<open>
  \<open>Article.create_articles(articles, articlesets=sets)\<close>: stores the articles, with
  consecutive new ids, and adds them to each target set.  Its deduplication and
  indexing are not modelled.
\<close>

definition create_articles :: "'v uarticle list \<Rightarrow> nat list \<Rightarrow> 'v ustate \<Rightarrow> 'v ustate" where
  "create_articles arts sets st =
     (let ids = [length (u_store st)..<length (u_store st) + length arts]
      in st\<lparr>u_store := u_store st @ arts,
            u_members := (\<lambda>s. if s \<in> set sets then u_members st s @ ids else u_members st s)\<rparr>)"

text \<open>
  \<^verbatim>\<open>
  def _set_project(art, project):
      try:
          if getattr(art, "project", None) is not None: return
      except Project.DoesNotExist:
          pass
      art.project = project
  \<close>
\<close>

definition set_project :: "nat \<Rightarrow> 'v uarticle \<Rightarrow> 'v uarticle" where
  "set_project p a = (if a_project a \<noteq> None then a else a\<lparr>a_project := Some p\<rparr>)"

section \<open>Provenance\<close>

text \<open>
  \<open>get_provenance(file, articles)\<close> with the time stamp (\<open>str(datetime.now())[:16]\<close>),
  the \<open>repr\<close> of the file name and the script's class name given as strings.
\<close>

definition get_provenance :: "string \<Rightarrow> string \<Rightarrow> string \<Rightarrow> nat \<Rightarrow> string" where
  "get_provenance timestamp filename_repr cls n =
     ''['' @ timestamp @ ''] Uploaded '' @ nat_str n @ '' articles from file '' @ filename_repr @
     '' using '' @ cls"

text \<open>\<open>aset.provenance = ("%s\n%s" % (aset.provenance or "", new_provenance)).strip()\<close>\<close>

definition add_provenance :: "string \<Rightarrow> string option \<Rightarrow> string option" where
  "add_provenance new old =
     Some (py_strip ((case old of Some p \<Rightarrow> p | None \<Rightarrow> []) @ [CHR 0x0A] @ new))"

section \<open>UploadScript.run\<close>

text \<open>
  The list comprehension over \<open>self.parse_file(f)\<close> for each file in turn: any
  exception of a file's generator ends \<open>run\<close>.
\<close>

fun parse_all :: "('f \<Rightarrow> 'v uitem gen) \<Rightarrow> 'f list \<Rightarrow> exc + 'v uitem list" where
  "parse_all pf [] = Inr []"
| "parse_all pf (f # fs) =
     (case py_list (pf f) of
        Inl e \<Rightarrow> Inl e
      | Inr xs \<Rightarrow> (case parse_all pf fs of Inl e \<Rightarrow> Inl e | Inr ys \<Rightarrow> Inr (xs @ ys)))"

text \<open>The two columns of \<open>articles_errors\<close>: \<open>(x, None)\<close> for an article, \<open>(None, x)\<close> otherwise.\<close>

fun item_error :: "'v uitem \<Rightarrow> exc option" where
  "item_error (UArt a) = None"
| "item_error (UErr e) = Some e"

fun item_article :: "'v uitem \<Rightarrow> 'v uarticle option" where
  "item_article (UArt a) = Some a"
| "item_article (UErr e) = None"

fun set_project_item :: "nat \<Rightarrow> 'v uitem \<Rightarrow> 'v uitem" where
  "set_project_item p (UArt a) = UArt (set_project p a)"
| "set_project_item p (UErr e) = UErr e"

text \<open>
  \<^verbatim>\<open>
  articles_errors = []
  for i, f in enumerate(files):
      articles_errors += [(x, None) if isinstance(x, Article) else (None, x)
                          for x in self.parse_file(f)]
  article_error = False
  for article, error in articles_errors:
      if error:
          article_error = True
      if isinstance(article, Article):
          _set_project(article, self.project)
  articles, errors = map(list, zip(*articles_errors))
  if self.errors or article_error:
      article_errors = [errors for error in errors if error]
      raise ParseError(self.errors, article_errors)
  Article.create_articles(articles, articlesets=self.articlesets, ...)
  if not articles:
      raise Exception("No articles were imported")
  self.postprocess(articles)
  for aset in self.articlesets:
      new_provenance = self.get_provenance(file, articles)
      aset.provenance = ("%s\n%s" % (aset.provenance or "", new_provenance)).strip()
      aset.save()
  return [a.id for a in self.articlesets]
  \<close>
  Unpacking \<open>zip()\<close> of an empty list into two names raises \<open>ValueError\<close>.
  \<open>postprocess\<close> is a subclass's hook, which may change the list \<open>articles\<close> in
  place: the model passes the list it leaves (\<open>run_hook\<close>); progress-monitor updates
  and usage logging are not modelled.  \<open>pf\<close> is \<open>self.parse_file\<close> on one uploaded file.
\<close>

definition unpack_error :: exc where
  "unpack_error = ValueError ''not enough values to unpack (expected 2, got 0)''"

definition no_articles :: exc where
  "no_articles = Exception ''No articles were imported''"

definition run_hook ::
  "('v uarticle option list \<Rightarrow> 'v uarticle option list) \<Rightarrow> ('f \<Rightarrow> 'v uitem gen) \<Rightarrow> 'f list \<Rightarrow>
     string \<Rightarrow> string \<Rightarrow> string \<Rightarrow> 'v ustate \<Rightarrow> 'v ustate \<times> (exc + nat list)" where
  "run_hook postprocess pf files timestamp filename_repr cls st =
     (case parse_all pf files of
        Inl e \<Rightarrow> (st, Inl e)
      | Inr items0 \<Rightarrow>
          (let article_error = list_ex (\<lambda>x. item_error x \<noteq> None) items0;
               items = map (set_project_item (u_project st)) items0
           in if items = [] then (st, Inl unpack_error)
              else
                (let articles = map item_article items; errors = map item_error items
                 in if u_errors st \<noteq> [] \<or> article_error
                    then (st, Inl (ParseErrorArgs (u_errors st)
                                     (map (\<lambda>error. errors) (filter (\<lambda>error. error \<noteq> None) errors))))
                    else
                      (case articlesets st of
                         (st1, sets1) \<Rightarrow>
                           (let arts = List.map_filter id articles;
                                st2 = create_articles arts sets1 st1
                            in if articles = [] then (st2, Inl no_articles)
                               else
                                 (case articlesets st2 of
                                    (st3, sets3) \<Rightarrow>
                                      (let new = get_provenance timestamp filename_repr cls (length (postprocess articles));
                                           st4 = st3\<lparr>u_provenance := (\<lambda>s. if s \<in> set sets3
                                                      then add_provenance new (u_provenance st3 s)
                                                      else u_provenance st3 s)\<rparr>
                                       in (case articlesets st4 of (st5, sets5) \<Rightarrow> (st5, Inr sets5)))))))))"

text \<open>
  The base class: \<open>UploadScript.postprocess\<close> is \<open>pass\<close>, so the list is left as it is.
\<close>

definition run ::
  "('f \<Rightarrow> 'v uitem gen) \<Rightarrow> 'f list \<Rightarrow> string \<Rightarrow> string \<Rightarrow> string \<Rightarrow> 'v ustate \<Rightarrow> 'v ustate \<times> (exc + nat list)" where
  "run pf files timestamp filename_repr cls st = run_hook (\<lambda>articles. articles) pf files timestamp filename_repr cls st"

section \<open>Example inputs\<close>

text \<open>
  A script whose files are single rows parsed by \<^const>\<open>ex_parser\<close> through the
  default \<open>split_file\<close>, a row without a title, and a script state with no target
  set but a set name.
\<close>

definition ex_pf :: "string pydict \<Rightarrow> string uitem gen" where
  "ex_pf row = parse_file (Some (column_map [''title'', ''body''])) [''title''] ex_parser (split_file row)"

definition bad_row :: "string pydict" where
  "bad_row = [(''body'', Some ''x'')]"

definition ex_ustate :: "string ustate" where
  "ex_ustate =
     \<lparr>u_errors = [], u_articlesets = [], u_set_name = ''upload'', u_project = 3, u_next_set = 20,
      u_created_sets = [], u_members = (\<lambda>_. []), u_provenance = (\<lambda>_. None), u_store = []\<rparr>"

section \<open>Properties of run\<close>

lemma no_errors_articles:
  "\<not> list_ex (\<lambda>x. item_error x \<noteq> None) xs \<Longrightarrow> xs = map UArt (List.map_filter id (map item_article xs))"
proof (induction xs)
  case Nil
  then show ?case by simp
next
  case (Cons x xs)
  then show ?case by (cases x) (auto simp: List.map_filter_simps)
qed

lemma articlesets_memo:
  assumes "articlesets st = (st1, sets)"
  shows "articlesets st1 = (st1, sets)"
  using assms by (auto simp: articlesets_def Let_def split: if_splits)

lemma articlesets_create:
  "articlesets st = (st, sets) \<Longrightarrow> articlesets (create_articles arts ss st) = (create_articles arts ss st, sets)"
  by (auto simp: articlesets_def create_articles_def Let_def split: if_splits dest: arg_cong[where f = u_articlesets])

lemma articlesets_prov:
  "articlesets st = (st, sets) \<Longrightarrow> articlesets (st\<lparr>u_provenance := pv\<rparr>) = (st\<lparr>u_provenance := pv\<rparr>, sets)"
  by (auto simp: articlesets_def Let_def split: if_splits dest: arg_cong[where f = u_articlesets])

lemma map_filter_some: "List.map_filter id (map (\<lambda>a. Some (f a)) xs) = map f xs"
  by (induction xs) (auto simp: List.map_filter_simps)

lemma run_success_eq:
  assumes p: "parse_all pf files = Inr (map UArt arts)" and ne: "arts \<noteq> []" and e: "u_errors st = []"
    and a: "articlesets st = (st1, sets)"
  shows "run pf files ts fr cls st =
     (let st2 = create_articles (map (set_project (u_project st)) arts) sets st1
      in (st2\<lparr>u_provenance := (\<lambda>s. if s \<in> set sets
             then add_provenance (get_provenance ts fr cls (length arts)) (u_provenance st2 s)
             else u_provenance st2 s)\<rparr>, Inr sets))"
proof -
  have m1: "articlesets st1 = (st1, sets)" by (rule articlesets_memo[OF a])
  define st2 where "st2 = create_articles (map (set_project (u_project st)) arts) sets st1"
  have m2: "articlesets st2 = (st2, sets)" unfolding st2_def by (rule articlesets_create[OF m1])
  have le: "\<not> list_ex (\<lambda>x. item_error x \<noteq> None) (map UArt arts)" by (induction arts) auto
  have "map item_article (map (set_project_item (u_project st)) (map UArt arts)) =
        map (\<lambda>a. Some (set_project (u_project st) a)) arts" by simp
  then show ?thesis
    using ne e a m2 le
    by (simp add: run_def run_hook_def p Let_def st2_def[symmetric] map_filter_some comp_def articlesets_prov)
qed

lemma item_error_project [simp]: "item_error (set_project_item p x) = item_error x"
  by (cases x) auto

lemma list_ex_nonempty: "list_ex P xs \<Longrightarrow> xs \<noteq> []"
  by auto

lemma length_filter_errors:
  "length (filter (\<lambda>e. e \<noteq> None) (map item_error xs)) = length (filter (\<lambda>x. item_error x \<noteq> None) xs)"
  by (induction xs) auto

lemma map_const_filter: "map (\<lambda>_. c) xs = replicate (length xs) c"
  by (induction xs) auto

text \<open>
  C23. When some parsed item is an error, \<open>run\<close> writes nothing and raises the
  two-argument \<open>ParseError\<close>, whose second argument is not the list of errors but
  one copy of the whole error column (with a \<open>None\<close> for every article) per error:
  \<open>[errors for error in errors if error]\<close>.
\<close>

theorem run_error_payload:
  assumes "parse_all pf files = Inr items" and "list_ex (\<lambda>x. item_error x \<noteq> None) items"
  shows "run pf files ts fr cls st =
     (st, Inl (ParseErrorArgs (u_errors st)
                (replicate (length (filter (\<lambda>x. item_error x \<noteq> None) items)) (map item_error items))))"
  using assms list_ex_nonempty[OF assms(2)]
  by (simp add: run_def run_hook_def Let_def comp_def map_const_filter length_filter_errors)

text \<open>
  An upload that yields no items at all raises \<open>ValueError\<close> when the empty
  list is unpacked by \<open>articles, errors = map(list, zip(*articles_errors))\<close>, and
  writes nothing.
\<close>

lemma run_empty_upload:
  assumes "parse_all pf files = Inr []"
  shows "run pf files ts fr cls st = (st, Inl unpack_error)"
  using assms by (simp add: run_def run_hook_def)


lemma run_ok:
  assumes "parse_all pf files = Inr items" and "items \<noteq> []" and "u_errors st = []"
    and "\<not> list_ex (\<lambda>x. item_error x \<noteq> None) items" and "articlesets st = (st1, sets)"
  obtains arts where "items = map UArt arts" and "arts \<noteq> []" and
    "run pf files ts fr cls st =
       (let st2 = create_articles (map (set_project (u_project st)) arts) sets st1
        in (st2\<lparr>u_provenance := (\<lambda>s. if s \<in> set sets
               then add_provenance (get_provenance ts fr cls (length arts)) (u_provenance st2 s)
               else u_provenance st2 s)\<rparr>, Inr sets))"
proof -
  define arts where "arts = List.map_filter id (map item_article items)"
  have i: "items = map UArt arts" unfolding arts_def by (rule no_errors_articles[OF assms(4)])
  with assms(2) have ne: "arts \<noteq> []" by simp
  from assms(1) i have "parse_all pf files = Inr (map UArt arts)" by simp
  from run_success_eq[OF this ne assms(3,5)] i ne that show ?thesis by blast
qed

lemma run_stuck:
  assumes "parse_all pf files = Inr items" and "items = [] \<or> u_errors st \<noteq> [] \<or> list_ex (\<lambda>x. item_error x \<noteq> None) items"
  shows "fst (run pf files ts fr cls st) = st \<and> snd (run pf files ts fr cls st) \<noteq> Inl no_articles"
proof -
  consider "items = []" | "items \<noteq> []" "u_errors st \<noteq> [] \<or> list_ex (\<lambda>x. item_error x \<noteq> None) items"
    using assms(2) by blast
  then show ?thesis
  proof cases
    case 1
    with assms(1) show ?thesis by (simp add: run_def run_hook_def unpack_error_def no_articles_def)
  next
    case 2
    with assms(1) show ?thesis by (simp add: run_def run_hook_def Let_def no_articles_def)
  qed
qed

lemma articlesets_created:
  "articlesets st = (st1, sets) \<Longrightarrow> \<exists>xs. u_created_sets st1 = u_created_sets st @ xs \<and> length xs \<le> 1"
  by (auto simp: articlesets_def Let_def split: if_splits)

text \<open>
  C25. Once parsing has returned, \<open>run\<close> never raises
  \<open>Exception("No articles were imported")\<close>: the check \<open>if not articles\<close> is dead code,
  the empty upload having failed at the unpacking before.
\<close>

theorem run_no_articles_unreachable:
  assumes "parse_all pf files = Inr items"
  shows "snd (run pf files ts fr cls st) \<noteq> Inl no_articles"
proof (cases "items = [] \<or> u_errors st \<noteq> [] \<or> list_ex (\<lambda>x. item_error x \<noteq> None) items")
  case True
  with run_stuck[OF assms] show ?thesis by blast
next
  case False
  obtain st1 sets where a: "articlesets st = (st1, sets)" by fastforce
  from False have h: "items \<noteq> []" "u_errors st = []" "\<not> list_ex (\<lambda>x. item_error x \<noteq> None) items"
    by auto
  obtain arts where "items = map UArt arts" "arts \<noteq> []" and
    r: "run pf files ts fr cls st =
       (let st2 = create_articles (map (set_project (u_project st)) arts) sets st1
        in (st2\<lparr>u_provenance := (\<lambda>s. if s \<in> set sets
               then add_provenance (get_provenance ts fr cls (length arts)) (u_provenance st2 s)
               else u_provenance st2 s)\<rparr>, Inr sets))"
    by (rule run_ok[OF assms h a])
  show ?thesis by (simp add: r Let_def)
qed

text \<open>
  C27. However often \<open>run\<close> reads the \<open>articlesets\<close> property (three times on
  success), it creates at most one new article set: the property stores the set it
  creates in the options.
\<close>

theorem run_creates_at_most_one_set:
  assumes "run pf files ts fr cls st = (st', r)"
  shows "\<exists>xs. u_created_sets st' = u_created_sets st @ xs \<and> length xs \<le> 1"
proof (cases "parse_all pf files")
  case (Inl e)
  with assms show ?thesis by (auto simp: run_def run_hook_def)
next
  case (Inr items)
  show ?thesis
  proof (cases "items = [] \<or> u_errors st \<noteq> [] \<or> list_ex (\<lambda>x. item_error x \<noteq> None) items")
    case True
    with run_stuck[OF Inr, of st ts fr cls] assms show ?thesis by auto
  next
    case False
    obtain st1 sets where a: "articlesets st = (st1, sets)" by fastforce
    from False have h: "items \<noteq> []" "u_errors st = []" "\<not> list_ex (\<lambda>x. item_error x \<noteq> None) items"
      by auto
    obtain arts where "items = map UArt arts" "arts \<noteq> []" and
      r: "run pf files ts fr cls st =
         (let st2 = create_articles (map (set_project (u_project st)) arts) sets st1
          in (st2\<lparr>u_provenance := (\<lambda>s. if s \<in> set sets
                 then add_provenance (get_provenance ts fr cls (length arts)) (u_provenance st2 s)
                 else u_provenance st2 s)\<rparr>, Inr sets))"
      by (rule run_ok[OF Inr h a])
    from assms have "u_created_sets st' = u_created_sets st1" by (auto simp: r Let_def create_articles_def)
    with articlesets_created[OF a] show ?thesis by simp
  qed
qed

text \<open>
  Whatever a subclass's \<open>postprocess\<close> does to the list, \<open>run\<close> stores and attaches
  the same articles and returns the same sets: the hook runs after
  \<open>Article.create_articles\<close>, so it can change only the article count in the
  provenance line.
\<close>

lemma postprocess_keeps_sets:
  "snd (run_hook pp pf files ts fr cls st) = snd (run pf files ts fr cls st) \<and>
   (fst (run_hook pp pf files ts fr cls st))\<lparr>u_provenance := u_provenance (fst (run pf files ts fr cls st))\<rparr> =
     fst (run pf files ts fr cls st)"
proof -
  obtain st1 sets1 where a: "articlesets st = (st1, sets1)" by fastforce
  have m: "articlesets (create_articles arts sets1 st1) = (create_articles arts sets1 st1, sets1)" for arts
    by (rule articlesets_create[OF articlesets_memo[OF a]])
  show ?thesis
    using articlesets_prov[OF m]
    by (simp add: run_def run_hook_def Let_def a m split: sum.splits)
qed

lemma articlesets_frame:
  "articlesets st = (st1, sets) \<Longrightarrow> u_store st1 = u_store st \<and> u_members st1 = u_members st \<and> u_project st1 = u_project st"
  by (auto simp: articlesets_def Let_def split: if_splits)

lemma strip_right: "xs \<noteq> [] \<Longrightarrow> \<not> is_space (last xs) \<Longrightarrow> rev (dropWhile is_space (rev xs)) = xs"
  by (induction xs rule: rev_induct) auto

lemma is_space_newline [simp]: "is_space (CHR 0x0A)"
  by (simp add: is_space_def)

lemma not_space_bracket [simp]: "\<not> is_space (CHR ''['')"
  by (simp add: is_space_def)

lemma provenance_strip:
  assumes "cls \<noteq> []" and "\<not> is_space (last cls)"
  shows "py_strip (old @ [CHR 0x0A] @ get_provenance ts fr cls n) =
     (if list_all is_space old then get_provenance ts fr cls n
      else dropWhile is_space old @ [CHR 0x0A] @ get_provenance ts fr cls n)"
proof -
  have l: "\<not> is_space (last (get_provenance ts fr cls n))" and ne: "get_provenance ts fr cls n \<noteq> []"
    using assms by (simp_all add: get_provenance_def)
  show ?thesis
  proof (cases "list_all is_space old")
    case True
    then have "dropWhile is_space (old @ [CHR 0x0A] @ get_provenance ts fr cls n) = get_provenance ts fr cls n"
      by (simp add: dropWhile_append2 list_all_iff get_provenance_def)
    with True l ne show ?thesis by (simp add: py_strip_def strip_right)
  next
    case False
    then obtain c where "c \<in> set old" "\<not> is_space c" by (auto simp: list_all_iff)
    then have "dropWhile is_space (old @ [CHR 0x0A] @ get_provenance ts fr cls n) =
               dropWhile is_space old @ [CHR 0x0A] @ get_provenance ts fr cls n"
      by (simp add: dropWhile_append1)
    moreover have "rev (dropWhile is_space (rev (dropWhile is_space old @ [CHR 0x0A] @ get_provenance ts fr cls n))) =
                   dropWhile is_space old @ [CHR 0x0A] @ get_provenance ts fr cls n"
      by (rule strip_right) (use l ne in auto)
    ultimately show ?thesis using False by (simp only: py_strip_def if_False)
  qed
qed

text \<open>
  C26. An error-free, non-empty upload stores the parsed articles in order, each with
  the script's project unless it had one, adds their new ids to every target set and
  to no other set, and returns the target sets: those of the options, or the one new
  set named by \<open>articleset_name\<close>.
\<close>

theorem run_success:
  assumes "parse_all pf files = Inr (map UArt arts)" and "arts \<noteq> []" and "u_errors st = []"
    and "run pf files ts fr cls st = (st', r)"
  shows "r = Inr (snd (articlesets st)) \<and>
         u_store st' = u_store st @ map (set_project (u_project st)) arts \<and>
         (\<forall>s. u_members st' s = (if s \<in> set (snd (articlesets st))
                 then u_members st s @ [length (u_store st)..<length (u_store st) + length arts]
                 else u_members st s))"
proof -
  obtain st1 sets where a: "articlesets st = (st1, sets)" by fastforce
  from run_success_eq[OF assms(1-3) a, of ts fr cls] assms(4) articlesets_frame[OF a] a show ?thesis
    by (auto simp: Let_def create_articles_def)
qed

text \<open>
  C28. After a successful upload, each target set's provenance is its old provenance,
  stripped of leading whitespace, a newline and the new provenance line; a set without
  (or with blank) provenance, such as a set created by this upload, gets exactly the
  new line.
\<close>

theorem run_provenance:
  assumes "parse_all pf files = Inr (map UArt arts)" and "arts \<noteq> []" and "u_errors st = []"
    and "run pf files ts fr cls st = (st', r)" and "cls \<noteq> []" and "\<not> is_space (last cls)"
    and "s \<in> set (snd (articlesets st))"
  shows "u_provenance st' s =
    Some (let old = (case u_provenance (fst (articlesets st)) s of None \<Rightarrow> [] | Some p \<Rightarrow> p)
          in if list_all is_space old then get_provenance ts fr cls (length arts)
             else dropWhile is_space old @ [CHR 0x0A] @ get_provenance ts fr cls (length arts))"
proof -
  obtain st1 sets where a: "articlesets st = (st1, sets)" by fastforce
  from run_success_eq[OF assms(1-3) a, of ts fr cls] assms(4,7) a
  have "u_provenance st' s = add_provenance (get_provenance ts fr cls (length arts)) (u_provenance st1 s)"
    by (auto simp: Let_def create_articles_def)
  with a provenance_strip[OF assms(5,6)] show ?thesis
    by (simp add: add_provenance_def split: option.splits)
qed

text \<open>
  With a file uploaded and no set name, \<open>clean_articleset_name\<close> returns the
  file's base name whether or not existing sets were chosen (its guard reads the
  non-existent field \<open>articleset\<close>); without a file, the name is required exactly
  when no set is chosen.
\<close>

lemma clean_articleset_name_file:
  "clean_articleset_name False (Some fn) [] sets = Inr (Some (basename fn)) \<and>
   clean_articleset_name False None [] sets =
     (if sets = [] then Inl (ValidationError ''Please specify either articleset or articleset_name'')
      else Inr (Some []))"
  by (simp add: clean_articleset_name_def)

lemma ex_pf_row: "ex_pf ex_row = ([UArt ex_article], None)"
  by (simp add: ex_pf_def parse_file_def split_file_def scrape_unit_u_def ex_parser_def ex_row_def
      article_from_dict_def mapped_fields_def column_map_def map_field_def ex_article_def dict_get_def
      dict_pop_def article_fields_def)

lemma ex_pf_bad: "ex_pf bad_row = ([UErr (MissingValueError ''title'')], None)"
  by (simp add: ex_pf_def parse_file_def split_file_def scrape_unit_u_def ex_parser_def bad_row_def
      article_from_dict_def mapped_fields_def column_map_def map_field_def dict_get_def
      dict_pop_def article_fields_def)

theorem run_error_payload_witness:
  "parse_all ex_pf [ex_row, bad_row, bad_row] =
     Inr [UArt ex_article, UErr (MissingValueError ''title''), UErr (MissingValueError ''title'')] \<and>
   list_ex (\<lambda>x. item_error x \<noteq> None)
     [UArt ex_article, UErr (MissingValueError ''title''), UErr (MissingValueError ''title'')] \<and>
   run ex_pf [ex_row, bad_row, bad_row] ''2014-01-01 10:00'' ''f'' ''CSV'' ex_ustate =
     (ex_ustate, Inl (ParseErrorArgs []
        [[None, Some (MissingValueError ''title''), Some (MissingValueError ''title'')],
         [None, Some (MissingValueError ''title''), Some (MissingValueError ''title'')]]))"
proof -
  have p: "parse_all ex_pf [ex_row, bad_row, bad_row] =
     Inr [UArt ex_article, UErr (MissingValueError ''title''), UErr (MissingValueError ''title'')]"
    by (simp add: ex_pf_row ex_pf_bad)
  have l: "list_ex (\<lambda>x. item_error x \<noteq> None)
     [UArt ex_article, UErr (MissingValueError ''title''), UErr (MissingValueError ''title'')]" by simp
  from run_error_payload[OF p l, of "''2014-01-01 10:00''" "''f''" "''CSV''" ex_ustate] p l show ?thesis
    by (simp add: ex_ustate_def numeral_2_eq_2)
qed

lemma run_empty_upload_example:
  "parse_all ex_pf [] = Inr [] \<and> run ex_pf [] ''2014-01-01 10:00'' ''f'' ''CSV'' ex_ustate = (ex_ustate, Inl unpack_error)"
  using run_empty_upload[of ex_pf "[]" "''2014-01-01 10:00''" "''f''" "''CSV''" ex_ustate] by simp

theorem run_no_articles_unreachable_witness:
  "parse_all ex_pf [ex_row] = Inr [UArt ex_article] \<and>
   snd (run ex_pf [ex_row] ''2014-01-01 10:00'' ''f'' ''CSV'' ex_ustate) \<noteq> Inl no_articles"
proof -
  have p: "parse_all ex_pf [ex_row] = Inr [UArt ex_article]" by (simp add: ex_pf_row)
  from run_no_articles_unreachable[OF p] p show ?thesis by blast
qed

lemma ex_run_parts:
  "parse_all ex_pf [ex_row] = Inr (map UArt [ex_article])" "[ex_article] \<noteq> []" "u_errors ex_ustate = []"
  by (simp_all add: ex_pf_row ex_ustate_def)

theorem run_success_witness:
  "\<exists>st' r. run ex_pf [ex_row] ''2014-01-01 10:00'' ''f'' ''CSV'' ex_ustate = (st', r) \<and>
     r = Inr [20] \<and> u_store st' = [set_project 3 ex_article] \<and> u_members st' 20 = [0]"
proof -
  obtain st' r where r: "run ex_pf [ex_row] ''2014-01-01 10:00'' ''f'' ''CSV'' ex_ustate = (st', r)"
    by fastforce
  from run_success[OF ex_run_parts r] r show ?thesis
    by (simp add: ex_ustate_def articlesets_def)
qed

theorem run_creates_at_most_one_set_witness:
  "\<exists>st' r. run ex_pf [ex_row] ''2014-01-01 10:00'' ''f'' ''CSV'' ex_ustate = (st', r) \<and>
     (\<exists>xs. u_created_sets st' = u_created_sets ex_ustate @ xs \<and> length xs \<le> 1)"
proof -
  obtain st' r where r: "run ex_pf [ex_row] ''2014-01-01 10:00'' ''f'' ''CSV'' ex_ustate = (st', r)"
    by fastforce
  from run_creates_at_most_one_set[OF r] r show ?thesis by blast
qed

theorem run_provenance_witness:
  "''CSV'' \<noteq> [] \<and> \<not> is_space (last ''CSV'') \<and>
   (\<exists>st' r. run ex_pf [ex_row] ''2014-01-01 10:00'' ''f'' ''CSV'' ex_ustate = (st', r) \<and>
     u_provenance st' 20 = Some (get_provenance ''2014-01-01 10:00'' ''f'' ''CSV'' 1))"
proof -
  obtain st' r where r: "run ex_pf [ex_row] ''2014-01-01 10:00'' ''f'' ''CSV'' ex_ustate = (st', r)"
    by fastforce
  have c: "''CSV'' \<noteq> []" "\<not> is_space (last ''CSV'')" by (simp_all add: is_space_def)
  have s: "20 \<in> set (snd (articlesets ex_ustate))" by (simp add: ex_ustate_def articlesets_def)
  from run_provenance[OF ex_run_parts r c s] r c show ?thesis
    by (simp add: ex_ustate_def articlesets_def)
qed

end
