(* ===== verification/Upload_Script.thy ===== *)
theory Upload_Script
  imports Upload_Run
begin

text \<open>
  The form and the entry points around \<open>UploadScript.run\<close> in
  \<open>src/amcat/scripts/article_upload/upload.py\<close>: the fields of \<open>UploadForm\<close>
  (lines 55--66) and \<open>UploadForm.get_empty\<close> (82--89), the validation Django runs over
  those fields together with \<open>clean_articleset_name\<close>, \<open>UploadScript.__init__\<close>
  (102--105), \<open>decode\<close> (124--127), the cached property \<open>uploaded_texts\<close> (129--136),
  and \<open>_get_files\<close> and \<open>_get_units\<close> (212--216), through which \<open>run\<close> reads the
  entries of the bound form, each file one unit.  The form machinery of Django
  (\<open>ModelChoiceField\<close>, \<open>ModelMultipleChoiceField\<close>, \<open>CharField\<close>, \<open>full_clean\<close>) is
  modelled from its documented behaviour.
\<close>

section \<open>UploadForm\<close>

text \<open>
  \<^verbatim>\<open>
  project = forms.ModelChoiceField(queryset=Project.objects.all())
  articlesets = forms.ModelMultipleChoiceField(queryset=ArticleSet.objects.all(), required=False, ...)
  articleset_name = forms.CharField(max_length=ArticleSet._meta.get_field_by_name('name')[0].max_length,
                                    required=False)
  \<close>
  A form instance: its bound data (\<open>post\<close> and \<open>files\<close>, or none), the initial value and
  widget of \<open>project\<close>, the project the \<open>articlesets\<close> queryset is restricted to (none:
  all sets), and the maximum length of \<open>articleset_name\<close> (that of the \<open>name\<close> column).
\<close>

record 'd upload_form =
  uf_data :: "('d \<times> 'd) option"
  uf_project_initial :: "nat option"
  uf_project_hidden :: bool
  uf_sets_project :: "nat option"
  uf_name_max :: nat

definition new_upload_form :: "nat \<Rightarrow> ('d \<times> 'd) option \<Rightarrow> 'd upload_form" where
  "new_upload_form name_max data =
     \<lparr>uf_data = data, uf_project_initial = None, uf_project_hidden = False, uf_sets_project = None,
      uf_name_max = name_max\<rparr>"

text \<open>
  \<^verbatim>\<open>
  f = cls(post, files) if post is not None else cls()
  if project:
      f.fields['project'].initial = project.id
      f.fields['project'].widget = HiddenInput()
      f.fields['articlesets'].queryset = ArticleSet.objects.filter(project=project)
  return f
  \<close>
  Without \<open>post\<close>, the form is unbound and \<open>files\<close> is dropped.
\<close>

definition get_empty :: "nat \<Rightarrow> nat option \<Rightarrow> 'd option \<Rightarrow> 'd \<Rightarrow> 'd upload_form" where
  "get_empty name_max project post files =
     (let f = (case post of
                 Some p \<Rightarrow> new_upload_form name_max (Some (p, files))
               | None \<Rightarrow> new_upload_form name_max None)
      in case project of
           None \<Rightarrow> f
         | Some p \<Rightarrow> f\<lparr>uf_project_initial := Some p, uf_project_hidden := True, uf_sets_project := Some p\<rparr>)"

text \<open>
  What the user submits: the chosen project, the chosen sets, the set name, and the
  name of the uploaded file (if any).  The database knows the projects and, for each
  set id, the project of that set (none: no such set).
\<close>

record upload_input =
  in_project :: "nat option"
  in_articlesets :: "nat list"
  in_articleset_name :: string
  in_file :: "string option"

text \<open>
  The field cleaners: \<open>ModelChoiceField.clean\<close> (required, one of the queryset),
  \<open>ModelMultipleChoiceField.clean\<close> (not required; each chosen key in the queryset;
  the result as a list without repetitions, the queryset's own order not modelled),
  \<open>CharField.clean\<close> (at most \<open>max_length\<close> characters).
\<close>

definition clean_project :: "nat list \<Rightarrow> nat option \<Rightarrow> exc + nat" where
  "clean_project projects v =
     (case v of
        None \<Rightarrow> Inl (ValidationError ''This field is required.'')
      | Some p \<Rightarrow>
          if p \<in> set projects then Inr p
          else Inl (ValidationError ''Select a valid choice. That choice is not one of the available choices.''))"

definition set_choice_ok :: "(nat \<Rightarrow> nat option) \<Rightarrow> 'd upload_form \<Rightarrow> nat \<Rightarrow> bool" where
  "set_choice_ok set_proj f s =
     (case set_proj s of
        None \<Rightarrow> False
      | Some q \<Rightarrow> (case uf_sets_project f of None \<Rightarrow> True | Some p \<Rightarrow> q = p))"

definition invalid_choice :: "nat \<Rightarrow> exc" where
  "invalid_choice s = ValidationError (''Select a valid choice. '' @ nat_str s @ '' is not one of the available choices.'')"

definition clean_sets :: "(nat \<Rightarrow> nat option) \<Rightarrow> 'd upload_form \<Rightarrow> nat list \<Rightarrow> exc + nat list" where
  "clean_sets set_proj f chosen =
     (case filter (\<lambda>s. \<not> set_choice_ok set_proj f s) chosen of
        [] \<Rightarrow> Inr (remdups chosen)
      | s # _ \<Rightarrow> Inl (invalid_choice s))"

definition clean_name :: "'d upload_form \<Rightarrow> string \<Rightarrow> exc + string" where
  "clean_name f name =
     (if length name \<le> uf_name_max f then Inr name
      else Inl (ValidationError (''Ensure this value has at most '' @ nat_str (uf_name_max f) @
                                 '' characters (it has '' @ nat_str (length name) @ '').'')))"

fun err_of :: "exc + 'a \<Rightarrow> exc list" where
  "err_of (Inl e) = [e]"
| "err_of (Inr _) = []"

text \<open>
  \<open>full_clean\<close>: each field in turn, and after \<open>articleset_name\<close>'s own cleaning the
  form's \<open>clean_articleset_name\<close>, which sees whether \<open>articlesets\<close> has an error and,
  if not, its cleaned value.  The form is valid when no field has an error; its cleaned
  data is the project, the sets and the set name.
\<close>

definition clean_form ::
  "nat list \<Rightarrow> (nat \<Rightarrow> nat option) \<Rightarrow> 'd upload_form \<Rightarrow> upload_input \<Rightarrow> exc list + nat \<times> nat list \<times> string option" where
  "clean_form projects set_proj f inp =
     (let rp = clean_project projects (in_project inp);
          rs = clean_sets set_proj f (in_articlesets inp);
          rn = (case clean_name f (in_articleset_name inp) of
                  Inl e \<Rightarrow> Inl e
                | Inr nm \<Rightarrow> clean_articleset_name (isl rs) (in_file inp) nm (case rs of Inr s \<Rightarrow> s | Inl _ \<Rightarrow> []))
      in case (rp, rs, rn) of
           (Inr p, Inr s, Inr nm) \<Rightarrow> Inr (p, s, nm)
         | _ \<Rightarrow> Inl (err_of rp @ err_of rs @ err_of rn))"

section \<open>UploadScript\<close>

text \<open>
  \<^verbatim>\<open>
  def __init__(self, *args, **kargs):
      super(UploadScript, self).__init__(*args, **kargs)
      self.project = self.options['project']
      self.errors = []
  \<close>
  The options are the form's cleaned data; a cleaned set name \<open>None\<close> is false, as the
  empty name is, for the property \<open>articlesets\<close>.  The database part of the state is
  passed through.
\<close>

definition script_init :: "nat \<Rightarrow> nat list \<Rightarrow> string option \<Rightarrow> 'v ustate \<Rightarrow> 'v ustate" where
  "script_init p sets nm db =
     db\<lparr>u_errors := [], u_articlesets := sets, u_set_name := (case nm of None \<Rightarrow> [] | Some n \<Rightarrow> n),
        u_project := p\<rparr>"

text \<open>\<open>enc, text = self.bound_form.decode(bytes); return text\<close>\<close>

definition decode :: "('b \<Rightarrow> string \<times> string) \<Rightarrow> 'b \<Rightarrow> string" where
  "decode form_decode bytes = (case form_decode bytes of (enc, text) \<Rightarrow> text)"

text \<open>
  \<^verbatim>\<open>
  @property
  def uploaded_texts(self):
      try:
          return self._input_texts
      except AttributeError:
          self._input_texts = self.bound_form.get_uploaded_texts()
          return self._input_texts
  \<close>
  The bound form's \<open>get_uploaded_texts\<close> reads the uploaded files, and so changes the
  form (a file object is read once); the attribute \<open>_input_texts\<close> is absent until the
  first access.
\<close>

record ('fm, 'f) texts_cache =
  tc_form :: 'fm
  tc_input_texts :: "'f list option"

definition uploaded_texts :: "('fm \<Rightarrow> 'fm \<times> 'f list) \<Rightarrow> ('fm, 'f) texts_cache \<Rightarrow> ('fm, 'f) texts_cache \<times> 'f list" where
  "uploaded_texts get_texts c =
     (case tc_input_texts c of
        Some t \<Rightarrow> (c, t)
      | None \<Rightarrow> (case get_texts (tc_form c) of (fm', t) \<Rightarrow> (c\<lparr>tc_form := fm', tc_input_texts := Some t\<rparr>, t)))"

text \<open>
  \<^verbatim>\<open>
  def _get_files(self):
      return self.bound_form.get_entries()
  def _get_units(self, file):
      return self.split_file(file)
  \<close>
  \<open>upload_script\<close> is \<open>run\<close> of an upload script with the default \<open>_get_files\<close> and
  \<open>_get_units\<close>: \<open>entries\<close> is the form's entries, and \<open>parse_file\<close> parses each as
  one unit with the script's document parser \<open>pdoc\<close>; \<open>pp\<close> is its \<open>postprocess\<close>.
\<close>

definition upload_script ::
  "('v uarticle option list \<Rightarrow> 'v uarticle option list) \<Rightarrow> 'v field_map option \<Rightarrow> string list \<Rightarrow>
     ('f \<Rightarrow> exc + 'v parsed) \<Rightarrow> 'f list \<Rightarrow> string \<Rightarrow> string \<Rightarrow> string \<Rightarrow> 'v ustate \<Rightarrow> 'v ustate \<times> (exc + nat list)" where
  "upload_script pp fmo req pdoc entries ts fr cls st =
     run_hook pp (\<lambda>f. parse_file fmo req pdoc (split_file f)) entries ts fr cls st"

text \<open>
  An upload request end to end: the form is cleaned; an invalid form is answered with
  its errors and no script runs; otherwise the script is constructed from the cleaned
  data and run.
\<close>

definition upload ::
  "nat list \<Rightarrow> (nat \<Rightarrow> nat option) \<Rightarrow> 'd upload_form \<Rightarrow> upload_input \<Rightarrow>
     ('v uarticle option list \<Rightarrow> 'v uarticle option list) \<Rightarrow> 'v field_map option \<Rightarrow> string list \<Rightarrow>
     ('f \<Rightarrow> exc + 'v parsed) \<Rightarrow> 'f list \<Rightarrow> string \<Rightarrow> string \<Rightarrow> string \<Rightarrow> 'v ustate \<Rightarrow>
     exc list + 'v ustate \<times> (exc + nat list)" where
  "upload projects set_proj f inp pp fmo req pdoc entries ts fr cls db =
     (case clean_form projects set_proj f inp of
        Inl errs \<Rightarrow> Inl errs
      | Inr (p, sets, nm) \<Rightarrow> Inr (upload_script pp fmo req pdoc entries ts fr cls (script_init p sets nm db)))"

section \<open>Example inputs\<close>

text \<open>
  A project-bound form for project 3, whose sets are 5 and 6 (set 7 belongs to
  project 4); a document parser that makes one article of each text; a bound form
  whose uploaded files can be read once.
\<close>

definition ex_form :: "unit upload_form" where
  "ex_form = get_empty 200 (Some 3) (Some ()) ()"

definition ex_set_project :: "nat \<Rightarrow> nat option" where
  "ex_set_project s = (if s = 5 \<or> s = 6 then Some 3 else if s = 7 then Some 4 else None)"

definition ex_art :: "string \<Rightarrow> string uarticle" where
  "ex_art t = \<lparr>a_text = Some t, a_title = Some t, a_url = None, a_date = None, a_parent_hash = None,
                a_properties = [], a_project = None\<rparr>"

definition ex_doc :: "string \<Rightarrow> exc + string parsed" where
  "ex_doc t = Inr (PArticle (ex_art t))"

definition ex_read_once :: "string list \<times> bool \<Rightarrow> (string list \<times> bool) \<times> string list" where
  "ex_read_once fm = (case fm of (files, read) \<Rightarrow> ((files, True), if read then [] else files))"

section \<open>Lemmas\<close>



lemma clean_sets_ok:
  "(\<forall>s\<in>set chosen. set_choice_ok sp f s) \<Longrightarrow> clean_sets sp f chosen = Inr (remdups chosen)"
  by (simp add: clean_sets_def filter_empty_conv)




lemma clean_sets_isl:
  "\<not> isl (clean_sets sp f chosen) \<longleftrightarrow> (\<forall>s\<in>set chosen. set_choice_ok sp f s)"
  by (auto simp: clean_sets_def filter_empty_conv split: list.splits dest!: filter_eq_ConsD)

lemma clean_sets_bad:
  assumes "clean_sets sp f chosen = Inl e"
  obtains s where "s \<in> set chosen" "\<not> set_choice_ok sp f s" "e = invalid_choice s"
proof -
  from assms obtain s ss where f: "filter (\<lambda>s. \<not> set_choice_ok sp f s) chosen = s # ss" and "e = invalid_choice s"
    by (auto simp: clean_sets_def split: list.splits)
  with filter_eq_ConsD[OF f] show ?thesis by (intro that[of s]) auto
qed

lemma get_empty_sets:
  "\<not> isl (clean_sets sp (get_empty m (Some p) post files) chosen) \<longleftrightarrow> (\<forall>s\<in>set chosen. sp s = Some p)"
proof -
  have "set_choice_ok sp (get_empty m (Some p) post files) s \<longleftrightarrow> sp s = Some p" for s
    by (simp add: set_choice_ok_def get_empty_def new_upload_form_def Let_def split: option.splits)
  then show ?thesis by (simp add: clean_sets_isl)
qed

lemma upload_set_and_name:
  assumes "p \<in> set projects" and "sets \<noteq> []" and "\<forall>s\<in>set sets. set_choice_ok sp f s"
    and "name \<noteq> []" and "length name \<le> uf_name_max f"
  shows "upload projects sp f \<lparr>in_project = Some p, in_articlesets = sets, in_articleset_name = name, in_file = file\<rparr>
           pp fmo req pdoc entries ts fr cls db = Inl [ValidationError ''Please specify either articleset or articleset_name'']"
  using assms by (simp add: upload_def clean_form_def clean_project_def clean_sets_ok clean_name_def
      clean_articleset_name_def)

lemma upload_bad_set:
  assumes "\<not> set_choice_ok sp f s" and "s \<in> set sets"
  shows "\<exists>errs. upload projects sp f \<lparr>in_project = pr, in_articlesets = sets, in_articleset_name = name, in_file = file\<rparr>
           pp fmo req pdoc entries ts fr cls db = Inl errs \<and>
     (\<exists>s'\<in>set sets. \<not> set_choice_ok sp f s' \<and>
        invalid_choice s' \<in> set errs) \<and>
     ValidationError ''Please specify either articleset or articleset_name'' \<notin> set errs"
proof -
  obtain e where e: "clean_sets sp f sets = Inl e"
    using assms clean_sets_isl[of sp f sets] by (cases "clean_sets sp f sets") auto
  then obtain s' where s': "s' \<in> set sets" "\<not> set_choice_ok sp f s'"
    "e = invalid_choice s'"
    by (rule clean_sets_bad)
  have n: "ValidationError ''Please specify either articleset or articleset_name'' \<notin>
      set (err_of (case clean_name f name of Inl e \<Rightarrow> Inl e | Inr nm \<Rightarrow> clean_articleset_name True file nm []))"
    by (simp add: clean_name_def clean_articleset_name_def)
  have c: "clean_form projects sp f \<lparr>in_project = pr, in_articlesets = sets, in_articleset_name = name, in_file = file\<rparr> =
      Inl (err_of (clean_project projects pr) @ invalid_choice s' #
           err_of (case clean_name f name of Inl e \<Rightarrow> Inl e | Inr nm \<Rightarrow> clean_articleset_name True file nm []))"
    using e s'(3) by (simp add: clean_form_def Let_def split: sum.split)
  have p: "ValidationError ''Please specify either articleset or articleset_name'' \<notin> set (err_of (clean_project projects pr))"
    by (simp add: clean_project_def split: option.split)
  have "ValidationError ''Please specify either articleset or articleset_name'' \<noteq> invalid_choice s'"
    by (simp add: invalid_choice_def)
  with c p n s'(1,2) show ?thesis by (auto simp: upload_def)
qed

text \<open>
  \<open>uploaded_texts\<close> reads the form at most once: every later access returns the texts
  of the first, from the cache, and leaves the state as it is.
\<close>

lemma uploaded_texts_cached:
  assumes "uploaded_texts g c = (c', t)"
  shows "uploaded_texts g c' = (c', t) \<and> (tc_input_texts c = None \<longrightarrow> g (tc_form c) = (tc_form c', t)) \<and>
         (tc_input_texts c \<noteq> None \<longrightarrow> c' = c)"
  using assms by (auto simp: uploaded_texts_def split: option.splits prod.splits)

lemma uploaded_texts_read_once:
  "uploaded_texts ex_read_once \<lparr>tc_form = ([''a.csv''], False), tc_input_texts = None\<rparr> =
     (\<lparr>tc_form = ([''a.csv''], True), tc_input_texts = Some [''a.csv'']\<rparr>, [''a.csv'']) \<and>
   uploaded_texts ex_read_once \<lparr>tc_form = ([''a.csv''], True), tc_input_texts = Some [''a.csv'']\<rparr> =
     (\<lparr>tc_form = ([''a.csv''], True), tc_input_texts = Some [''a.csv'']\<rparr>, [''a.csv'']) \<and>
   snd (ex_read_once ([''a.csv''], True)) = []"
  by (simp add: uploaded_texts_def ex_read_once_def)


lemma upload_form_examples:
  "upload [3] ex_set_project ex_form
     \<lparr>in_project = Some 3, in_articlesets = [5], in_articleset_name = ''news'', in_file = None\<rparr>
     (\<lambda>a. a) None [] ex_doc [''one''] ''2014-01-01 10:00'' ''f'' ''CSV'' ex_ustate =
     Inl [ValidationError ''Please specify either articleset or articleset_name''] \<and>
   (\<exists>errs. upload [3] ex_set_project ex_form
      \<lparr>in_project = Some 3, in_articlesets = [5, 7], in_articleset_name = [], in_file = Some ''/tmp/news.txt''\<rparr>
      (\<lambda>a. a) None [] ex_doc [''one''] ''2014-01-01 10:00'' ''f'' ''CSV'' ex_ustate = Inl errs \<and>
      invalid_choice 7 \<in> set errs)"
proof -
  have ok: "set_choice_ok ex_set_project ex_form s \<longleftrightarrow> s = 5 \<or> s = 6" for s
    by (simp add: set_choice_ok_def ex_form_def get_empty_def new_upload_form_def ex_set_project_def)
  have "length ''news'' \<le> uf_name_max ex_form" by (simp add: ex_form_def get_empty_def new_upload_form_def)
  with upload_set_and_name[of 3 "[3]" "[5]" ex_set_project ex_form "''news''" None "\<lambda>a. a" None "[]" ex_doc "[''one'']"]
  have a: "upload [3] ex_set_project ex_form
     \<lparr>in_project = Some 3, in_articlesets = [5], in_articleset_name = ''news'', in_file = None\<rparr>
     (\<lambda>a. a) None [] ex_doc [''one''] ''2014-01-01 10:00'' ''f'' ''CSV'' ex_ustate =
     Inl [ValidationError ''Please specify either articleset or articleset_name'']" by (simp add: ok)
  from upload_bad_set[of ex_set_project ex_form 7 "[5, 7]" "[3]" "Some 3" "[]" "Some ''/tmp/news.txt''" "\<lambda>a. a" None "[]"
      ex_doc "[''one'']" "''2014-01-01 10:00''" "''f''" "''CSV''" ex_ustate]
  obtain errs where "upload [3] ex_set_project ex_form
      \<lparr>in_project = Some 3, in_articlesets = [5, 7], in_articleset_name = [], in_file = Some ''/tmp/news.txt''\<rparr>
      (\<lambda>a. a) None [] ex_doc [''one''] ''2014-01-01 10:00'' ''f'' ''CSV'' ex_ustate = Inl errs"
    "\<exists>s'\<in>set [5, 7]. \<not> set_choice_ok ex_set_project ex_form s' \<and> invalid_choice s' \<in> set errs"
    by (auto simp: ok)
  with a ok show ?thesis by auto
qed

end
