(* ===== verification/RestArticle.thy ===== *)
theory RestArticle
  imports Prelude "HOL-Library.AList"
begin

text \<open>
  The article serializer of the REST API, \<open>src/api/rest/viewsets/article.py\<close>
  (Python 2): \<open>ArticleSerializer.restore_fields\<close> (lines 31--52), which normalises the
  posted data (medium names to ids through a per-serializer cache, dates to date-times,
  the default project), \<open>from_native\<close> (54--71), which turns posted data with nested
  \<open>children\<close> into articles whose \<open>parent\<close> is set, and \<open>save\<close> (73--92), which flattens
  the result with \<open>_flatten\<close> and stores it.  Also \<open>ProjectSerializer.is_favourite\<close>
  of \<open>src/api/rest/resources/project.py\<close> (33--43).  The Django REST framework base
  class and the \<open>Medium\<close> and \<open>Article\<close> models are external: they are modelled by
  the state below.
\<close>

section \<open>Posted data\<close>

text \<open>
  Posted data is a dictionary of strings, numbers, lists of dictionaries and
  \<open>None\<close>.  A string that holds a JSON array of objects (a \<open>children\<close> value posted
  as a form field) is \<open>VJsonStr s cs\<close>, carrying its text \<open>s\<close> and its parse
  \<open>cs = json.loads(s)\<close>; a \<open>VStr\<close> is any other string, which \<open>json.loads\<close> rejects.
\<close>

datatype adata = AData "(string \<times> aval) list"
and aval = VStr string | VJsonStr string "adata list" | VInt int | VList "adata list" | VNone

fun dkeys :: "adata \<Rightarrow> (string \<times> aval) list" where
  "dkeys (AData kvs) = kvs"

section \<open>ArticleSerializer.restore_fields\<close>

text \<open>Python 2's \<open>int(s)\<close> of a string: optional surrounding whitespace, an optional sign, digits.\<close>

definition is_digit :: "char \<Rightarrow> bool" where
  "is_digit c = (let n = (of_char c :: nat) in 48 \<le> n \<and> n \<le> 57)"

definition py_int_ok :: "string \<Rightarrow> bool" where
  "py_int_ok s =
     (case py_strip s of
        [] \<Rightarrow> False
      | c # r \<Rightarrow> (if c = CHR ''+'' \<or> c = CHR ''-'' then r \<noteq> [] \<and> list_all is_digit r
                 else list_all is_digit (c # r)))"

text \<open>
  The serializer's state, with the database tables it reaches: the cache
  \<open>self.media\<close> (absent until first needed), \<open>self.many\<close>, the article objects created
  (data and \<open>parent\<close>, by address), the \<open>Medium\<close> table (name to id) with its next id
  and the number of \<open>Medium.get_or_create\<close> calls, and the articles handed to
  \<open>Article.create_articles\<close>.
\<close>

record robj =
  o_data :: adata
  o_parent :: "nat option"

record rstate =
  r_media :: "(string \<times> int) list option"
  r_many :: bool
  r_heap :: "nat \<Rightarrow> robj"
  r_next :: nat
  r_medium_ids :: "(string \<times> int) list"
  r_medium_next :: int
  r_lookups :: nat
  r_saved :: "nat list"

text \<open>\<open>Medium.get_or_create(m).id\<close>.\<close>

definition medium_get_or_create :: "string \<Rightarrow> rstate \<Rightarrow> rstate \<times> int" where
  "medium_get_or_create m st =
     (let st1 = st\<lparr>r_lookups := Suc (r_lookups st)\<rparr>
      in case map_of (r_medium_ids st) m of
           Some i \<Rightarrow> (st1, i)
         | None \<Rightarrow> (st1\<lparr>r_medium_ids := r_medium_ids st @ [(m, r_medium_next st)],
                        r_medium_next := r_medium_next st + 1\<rparr>, r_medium_next st))"

text \<open>
  \<^verbatim>\<open>
  if 'medium' in data:
      try:
          int(data['medium'])
      except ValueError:
          if not hasattr(self, 'media'):
              self.media = {}
          m = data['medium']
          if m not in self.media:
              self.media[m] = Medium.get_or_create(m).id
          data['medium'] = self.media[m]
  \<close>
  \<open>int()\<close> of a list or of \<open>None\<close> raises \<open>TypeError\<close>, which is not caught.
\<close>

definition medium_name :: "string \<Rightarrow> (string \<times> aval) list \<Rightarrow> rstate \<Rightarrow> rstate \<times> (exc + (string \<times> aval) list)" where
  "medium_name m kvs st =
     (let media = (case r_media st of Some md \<Rightarrow> md | None \<Rightarrow> [])
      in case map_of media m of
           Some i \<Rightarrow> (st\<lparr>r_media := Some media\<rparr>, Inr (AList.update ''medium'' (VInt i) kvs))
         | None \<Rightarrow>
             (case medium_get_or_create m st of
                (st1, i) \<Rightarrow> (st1\<lparr>r_media := Some (AList.update m i media)\<rparr>,
                             Inr (AList.update ''medium'' (VInt i) kvs))))"

definition restore_medium :: "(string \<times> aval) list \<Rightarrow> rstate \<Rightarrow> rstate \<times> (exc + (string \<times> aval) list)" where
  "restore_medium kvs st =
     (case map_of kvs ''medium'' of
        None \<Rightarrow> (st, Inr kvs)
      | Some (VInt i) \<Rightarrow> (st, Inr kvs)
      | Some (VStr s) \<Rightarrow> (if py_int_ok s then (st, Inr kvs) else medium_name s kvs st)
      | Some (VJsonStr s cs) \<Rightarrow> (if py_int_ok s then (st, Inr kvs) else medium_name s kvs st)
      | Some (VList cs) \<Rightarrow> (st, Inl (TypeError ''int() argument must be a string or a number''))
      | Some VNone \<Rightarrow> (st, Inl (TypeError ''int() argument must be a string or a number'')))"

text \<open>
  \<^verbatim>\<open>
  if 'date' in data and len(data['date']) == 10:
      data['date'] += "T00:00"
  if 'project' not in data:
      data['project'] = self.context['view'].project.id
  return super(ArticleSerializer, self).restore_fields(data, files)
  \<close>
  \<open>len()\<close> of a number or \<open>None\<close> and \<open>+=\<close> of a list and a string raise
  \<open>TypeError\<close>.  The base class turns the data into attributes and collects
  validation errors without raising; the model returns the normalised data.
\<close>

fun py_len :: "aval \<Rightarrow> exc + nat" where
  "py_len (VStr s) = Inr (length s)"
| "py_len (VJsonStr s cs) = Inr (length s)"
| "py_len (VList cs) = Inr (length cs)"
| "py_len (VInt i) = Inl (TypeError ''object of type int has no len()'')"
| "py_len VNone = Inl (TypeError ''object of type NoneType has no len()'')"

fun add_time :: "aval \<Rightarrow> exc + aval" where
  "add_time (VStr s) = Inr (VStr (s @ ''T00:00''))"
| "add_time (VJsonStr s cs) = Inr (VStr (s @ ''T00:00''))"
| "add_time _ = Inl (TypeError ''can only concatenate list (not str) to list'')"

definition restore_date :: "(string \<times> aval) list \<Rightarrow> exc + (string \<times> aval) list" where
  "restore_date kvs =
     (case map_of kvs ''date'' of
        None \<Rightarrow> Inr kvs
      | Some v \<Rightarrow>
          (case py_len v of
             Inl e \<Rightarrow> Inl e
           | Inr n \<Rightarrow>
               (if n = 10 then (case add_time v of Inl e \<Rightarrow> Inl e | Inr v' \<Rightarrow> Inr (AList.update ''date'' v' kvs))
                else Inr kvs)))"

definition restore_project :: "int \<Rightarrow> (string \<times> aval) list \<Rightarrow> (string \<times> aval) list" where
  "restore_project pid kvs = (if map_of kvs ''project'' = None then AList.update ''project'' (VInt pid) kvs else kvs)"

definition restore_fields :: "int \<Rightarrow> adata \<Rightarrow> rstate \<Rightarrow> rstate \<times> (exc + adata)" where
  "restore_fields pid d st =
     (case restore_medium (dkeys d) st of
        (st1, Inl e) \<Rightarrow> (st1, Inl e)
      | (st1, Inr kvs1) \<Rightarrow>
          (case restore_date kvs1 of
             Inl e \<Rightarrow> (st1, Inl e)
           | Inr kvs2 \<Rightarrow> (st1, Inr (AData (restore_project pid kvs2)))))"

section \<open>ArticleSerializer.from_native\<close>

text \<open>
  What \<open>from_native\<close> returns: one article object (by address), or the list
  \<open>[result] + [get_child(child) ...]\<close>, whose elements are again results.
\<close>

datatype ntree = NObj nat | NList "ntree list"

text \<open>
  \<open>children = data.get('children')\<close>, decoded with \<open>json.loads\<close> when it is a
  string, as the list \<open>if children:\<close> iterates over (empty when falsy).
\<close>

fun children_of :: "aval option \<Rightarrow> exc + adata list" where
  "children_of None = Inr []"
| "children_of (Some VNone) = Inr []"
| "children_of (Some (VList cs)) = Inr cs"
| "children_of (Some (VJsonStr s cs)) = Inr cs"
| "children_of (Some (VStr s)) = Inl (ValueError ''No JSON object could be decoded'')"
| "children_of (Some (VInt i)) = (if i = 0 then Inr [] else Inl (TypeError ''int object is not iterable''))"

text \<open>
  \<open>super(ArticleSerializer, self).from_native(data, files)\<close>: the base class runs
  \<open>restore_fields\<close> and builds a new, unsaved \<open>Article\<close> from the result.
\<close>

definition new_article :: "adata \<Rightarrow> rstate \<Rightarrow> rstate \<times> nat" where
  "new_article d st =
     (st\<lparr>r_next := Suc (r_next st), r_heap := (r_heap st)(r_next st := \<lparr>o_data = d, o_parent = None\<rparr>)\<rparr>, r_next st)"

text \<open>
  \<^verbatim>\<open>
  def from_native(self, data, files):
      result = super(ArticleSerializer, self).from_native(data, files)
      children = data.get('children')
      if isinstance(children, (str, unicode)):
          children = json.loads(children)
      if children:
          self.many = True
          def get_child(obj):
              child = self.from_native(obj, None)
              child.parent = result
              return child
          return [result] + [get_child(child) for child in children]
      return result
  \<close>
  \<open>from_children\<close> is the list comprehension over \<open>get_child\<close>.  When a child has
  children of its own, \<open>self.from_native(obj, None)\<close> returns a list, and
  \<open>child.parent = result\<close> raises \<open>AttributeError\<close> on it.
\<close>

function (sequential) from_native :: "int \<Rightarrow> adata \<Rightarrow> rstate \<Rightarrow> rstate \<times> (exc + ntree)"
  and from_children :: "int \<Rightarrow> nat \<Rightarrow> adata list \<Rightarrow> rstate \<Rightarrow> rstate \<times> (exc + ntree list)" where
  "from_native pid d st =
     (case restore_fields pid d st of
        (st1, Inl e) \<Rightarrow> (st1, Inl e)
      | (st1, Inr d') \<Rightarrow>
          (case new_article d' st1 of
             (st2, r) \<Rightarrow>
               (case children_of (map_of (dkeys d) ''children'') of
                  Inl e \<Rightarrow> (st2, Inl e)
                | Inr [] \<Rightarrow> (st2, Inr (NObj r))
                | Inr cs \<Rightarrow>
                    (case from_children pid r cs (st2\<lparr>r_many := True\<rparr>) of
                       (st3, Inl e) \<Rightarrow> (st3, Inl e)
                     | (st3, Inr ts) \<Rightarrow> (st3, Inr (NList (NObj r # ts)))))))"
| "from_children pid r [] st = (st, Inr [])"
| "from_children pid r (c # cs) st =
     (case from_native pid c st of
        (st1, Inl e) \<Rightarrow> (st1, Inl e)
      | (st1, Inr (NObj x)) \<Rightarrow>
          (case from_children pid r cs (st1\<lparr>r_heap := (r_heap st1)(x := (r_heap st1 x)\<lparr>o_parent := Some r\<rparr>)\<rparr>) of
             (st2, Inl e) \<Rightarrow> (st2, Inl e)
           | (st2, Inr ts) \<Rightarrow> (st2, Inr (NObj x # ts)))
      | (st1, Inr (NList ts)) \<Rightarrow> (st1, Inl (AttributeError ''list object has no attribute parent'')))"
  by pat_completeness auto

termination
proof -
  have ms: "map_of kvs k = Some v \<Longrightarrow> size v < size_list (size_prod (\<lambda>_. 0) size) kvs"
    for kvs k and v :: aval
    by (induction kvs) (auto split: if_splits)
  have cs: "size_list size cs < size d" if h: "children_of (map_of (dkeys d) ''children'') = Inr cs" for d cs
  proof (cases d)
    case (AData kvs)
    show ?thesis
    proof (cases "map_of kvs ''children''")
      case None
      with h AData show ?thesis by simp
    next
      case (Some v)
      from ms[OF Some] h AData Some show ?thesis by (cases v) (auto split: if_splits)
    qed
  qed
  show ?thesis
    by (relation "measure (\<lambda>x. case x of Inl (pid, d, st) \<Rightarrow> size d | Inr (pid, r, cs, st) \<Rightarrow> size_list size cs)")
       (auto dest: cs)
qed

section \<open>ArticleSerializer.save and _flatten\<close>

text \<open>
  \<^verbatim>\<open>
  def _flatten(l):
      if isinstance(l, collections.Iterable) and not isinstance(l, basestring):
          for el in l:
              for sub in _flatten(el):
                  yield sub
      else:
          yield l
  \<close>
\<close>

fun flatten :: "ntree \<Rightarrow> nat list" where
  "flatten (NObj x) = [x]"
| "flatten (NList ts) = concat (map flatten ts)"

text \<open>
  For a \<open>many\<close> request the base class calls \<open>from_native\<close> on each posted item and
  keeps the list of results (\<open>from_native_many\<close>).  \<open>save\<close> flattens
  \<open>self.object\<close>, hands the list to \<open>Article.create_articles\<close>, which stores the
  articles in list order, and sets \<open>self.many\<close>.
\<close>

fun from_native_many :: "int \<Rightarrow> adata list \<Rightarrow> rstate \<Rightarrow> rstate \<times> (exc + ntree list)" where
  "from_native_many pid [] st = (st, Inr [])"
| "from_native_many pid (d # ds) st =
     (case from_native pid d st of
        (st1, Inl e) \<Rightarrow> (st1, Inl e)
      | (st1, Inr t) \<Rightarrow>
          (case from_native_many pid ds st1 of
             (st2, Inl e) \<Rightarrow> (st2, Inl e)
           | (st2, Inr ts) \<Rightarrow> (st2, Inr (t # ts))))"

definition save_objects :: "ntree \<Rightarrow> rstate \<Rightarrow> rstate \<times> nat list" where
  "save_objects t st = (let objs = flatten t in (st\<lparr>r_saved := r_saved st @ objs, r_many := True\<rparr>, objs))"

section \<open>ProjectSerializer.is_favourite\<close>

text \<open>
  \<^verbatim>\<open>
  @property
  @cached
  def favourite_projects(self):
      return set(self.context['request'].user.userprofile
                  .favourite_projects.values_list("id", flat=True))
  def is_favourite(self, project):
      return project.id in self.favourite_projects
  \<close>
  The serializer's cache of the property and the number of database queries it made;
  \<open>fav\<close> is the user's favourite project ids in the database when queried.
\<close>

record pser =
  p_cache :: "nat set option"
  p_queries :: nat

definition favourite_projects :: "nat set \<Rightarrow> pser \<Rightarrow> pser \<times> nat set" where
  "favourite_projects fav s =
     (case p_cache s of
        Some f \<Rightarrow> (s, f)
      | None \<Rightarrow> (s\<lparr>p_cache := Some fav, p_queries := Suc (p_queries s)\<rparr>, fav))"

definition is_favourite :: "nat set \<Rightarrow> nat \<Rightarrow> pser \<Rightarrow> pser \<times> bool" where
  "is_favourite fav p s = (case favourite_projects fav s of (s', f) \<Rightarrow> (s', p \<in> f))"

text \<open>
  Serializing a list of projects calls \<open>is_favourite\<close> once per project, on the same
  serializer; \<open>favs i\<close> is the database's favourites at the \<open>i\<close>-th call.
\<close>

fun serialize_projects :: "(nat \<Rightarrow> nat set) \<Rightarrow> nat \<Rightarrow> nat list \<Rightarrow> pser \<Rightarrow> pser \<times> bool list" where
  "serialize_projects favs i [] s = (s, [])"
| "serialize_projects favs i (p # ps) s =
     (case is_favourite (favs i) p s of
        (s1, b) \<Rightarrow> apsnd (Cons b) (serialize_projects favs (Suc i) ps s1))"

section \<open>Auxiliary predicates and example inputs\<close>

text \<open>
  Posted data that \<open>restore_fields\<close> leaves unchanged in its medium and date
  fields; the invariant of the medium cache; whether a name is cached.  Example
  inputs: an empty serializer with a medium table holding \<open>NRC\<close>, a post with a
  medium name, a date and one child, and a post whose child has a child.
\<close>

definition medium_stable :: "(string \<times> aval) list \<Rightarrow> bool" where
  "medium_stable kvs =
     (case map_of kvs ''medium'' of
        None \<Rightarrow> True
      | Some (VInt i) \<Rightarrow> True
      | Some (VStr s) \<Rightarrow> py_int_ok s
      | Some (VJsonStr s cs) \<Rightarrow> py_int_ok s
      | Some _ \<Rightarrow> False)"

definition date_stable :: "(string \<times> aval) list \<Rightarrow> bool" where
  "date_stable kvs = (case map_of kvs ''date'' of None \<Rightarrow> True | Some v \<Rightarrow> (\<exists>n. py_len v = Inr n \<and> n \<noteq> 10))"

definition media_ok :: "rstate \<Rightarrow> bool" where
  "media_ok st =
     (case r_media st of
        None \<Rightarrow> True
      | Some md \<Rightarrow> (\<forall>m i. map_of md m = Some i \<longrightarrow> map_of (r_medium_ids st) m = Some i))"

definition cache_has :: "rstate \<Rightarrow> string \<Rightarrow> bool" where
  "cache_has st m = (case r_media st of None \<Rightarrow> False | Some md \<Rightarrow> map_of md m \<noteq> None)"

definition ex_rstate :: rstate where
  "ex_rstate =
     \<lparr>r_media = None, r_many = False, r_heap = (\<lambda>_. \<lparr>o_data = AData [], o_parent = None\<rparr>), r_next = 0,
      r_medium_ids = [(''NRC'', 1)], r_medium_next = 2, r_lookups = 0, r_saved = []\<rparr>"

definition ex_child :: adata where
  "ex_child = AData [(''headline'', VStr ''reply'')]"

definition ex_post :: adata where
  "ex_post =
     AData [(''headline'', VStr ''news''), (''medium'', VStr ''Trouw''), (''date'', VStr ''2014-01-01''),
            (''children'', VList [ex_child])]"

definition ex_deep :: adata where
  "ex_deep = AData [(''children'', VList [AData [(''children'', VList [ex_child])]])]"

section \<open>Properties of the serializers\<close>

lemma restore_medium_stable: "medium_stable kvs \<Longrightarrow> restore_medium kvs st = (st, Inr kvs)"
  by (auto simp: medium_stable_def restore_medium_def split: option.splits aval.splits)

lemma medium_name_result:
  "medium_name m kvs st = (st', r) \<Longrightarrow> \<exists>i. r = Inr (AList.update ''medium'' (VInt i) kvs)"
  by (auto simp: medium_name_def Let_def split: option.splits prod.splits)

lemma restore_medium_makes_stable:
  assumes "restore_medium kvs st = (st', Inr kvs')"
  shows "medium_stable kvs'"
proof (cases "medium_stable kvs")
  case True
  with assms show ?thesis by (simp add: restore_medium_stable)
next
  case False
  with assms obtain i where "kvs' = AList.update ''medium'' (VInt i) kvs"
    by (auto simp: medium_stable_def restore_medium_def split: option.splits aval.splits if_splits
        dest!: medium_name_result)
  then show ?thesis by (simp add: medium_stable_def update_conv')
qed

lemma restore_date_stable: "date_stable kvs \<Longrightarrow> restore_date kvs = Inr kvs"
  by (auto simp: date_stable_def restore_date_def split: option.splits)

lemma add_time_len: "add_time v = Inr v' \<Longrightarrow> py_len v = Inr n \<Longrightarrow> py_len v' = Inr (n + 6)"
  by (cases v) auto

lemma restore_date_makes_stable:
  assumes "restore_date kvs = Inr kvs'"
  shows "date_stable kvs' \<and> map_of kvs' ''medium'' = map_of kvs ''medium''"
  using assms
  by (auto simp: date_stable_def restore_date_def update_conv' split: option.splits sum.splits if_splits
      dest: add_time_len)

lemma restore_project_keys:
  "map_of (restore_project pid kvs) ''medium'' = map_of kvs ''medium'' \<and>
   map_of (restore_project pid kvs) ''date'' = map_of kvs ''date'' \<and>
   map_of (restore_project pid kvs) ''project'' \<noteq> None"
  by (simp add: restore_project_def update_conv')

lemma restore_project_idem: "map_of kvs ''project'' \<noteq> None \<Longrightarrow> restore_project pid kvs = kvs"
  unfolding restore_project_def by (simp only: if_False)

lemma medium_stable_cong: "map_of kvs' ''medium'' = map_of kvs ''medium'' \<Longrightarrow> medium_stable kvs' = medium_stable kvs"
  by (simp add: medium_stable_def)

lemma date_stable_cong: "map_of kvs' ''date'' = map_of kvs ''date'' \<Longrightarrow> date_stable kvs' = date_stable kvs"
  by (simp add: date_stable_def)

text \<open>
  C32. Normalising posted data twice is normalising it once: \<open>restore_fields\<close> on its
  own output changes neither the data nor the serializer and database state (no second
  \<open>T00:00\<close>, no second medium lookup).
\<close>

theorem restore_fields_idempotent:
  assumes "restore_fields pid d st = (st', Inr d')"
  shows "restore_fields pid d' st' = (st', Inr d')"
proof -
  obtain kvs1 kvs2 where m: "restore_medium (dkeys d) st = (st', Inr kvs1)" and
    dt: "restore_date kvs1 = Inr kvs2" and d': "d' = AData (restore_project pid kvs2)"
    using assms by (auto simp: restore_fields_def split: prod.splits sum.splits)
  have ms: "medium_stable (restore_project pid kvs2)"
    using restore_medium_makes_stable[OF m] restore_date_makes_stable[OF dt] restore_project_keys[of pid kvs2]
    by (metis medium_stable_cong)
  have ds: "date_stable (restore_project pid kvs2)"
    using restore_date_makes_stable[OF dt] restore_project_keys[of pid kvs2] by (metis date_stable_cong)
  show ?thesis
    using ms ds restore_project_keys[of pid kvs2]
    by (simp add: d' restore_fields_def restore_medium_stable restore_date_stable restore_project_idem)
qed

lemma restore_fields_frame:
  "restore_fields pid d st = (st1, r) \<Longrightarrow> r_next st1 = r_next st \<and> r_heap st1 = r_heap st"
  by (auto simp: restore_fields_def restore_medium_def medium_name_def medium_get_or_create_def Let_def
      split: prod.splits sum.splits option.splits aval.splits if_splits)

lemma upt_single: "([x] = [a..<b]) = (x = a \<and> b = Suc a)"
proof
  assume h: "[x] = [a..<b]"
  then have l: "b - a = 1" by (metis length_upt length_Cons list.size(3) One_nat_def)
  then have "a < b" by simp
  with h l show "x = a \<and> b = Suc a" by (simp add: upt_conv_Cons)
qed simp

lemma native_shape:
  shows
    "\<And>st' t. from_native pid d st = (st', Inr t) \<Longrightarrow>
       flatten t = [r_next st..<r_next st'] \<and> r_next st < r_next st' \<and>
       o_parent (r_heap st' (r_next st)) = None \<and>
       (\<forall>x \<in> set (tl (flatten t)). o_parent (r_heap st' x) = Some (r_next st)) \<and>
       (\<forall>y < r_next st. r_heap st' y = r_heap st y)"
  and
    "\<And>st' ts. from_children pid r cs st = (st', Inr ts) \<Longrightarrow> r < r_next st \<Longrightarrow>
       concat (map flatten ts) = [r_next st..<r_next st'] \<and> r_next st \<le> r_next st' \<and>
       (\<forall>x \<in> set (concat (map flatten ts)). o_parent (r_heap st' x) = Some r) \<and>
       (\<forall>t \<in> set ts. \<exists>x. t = NObj x) \<and>
       (\<forall>y < r_next st. r_heap st' y = r_heap st y)"
proof (induction pid d st and pid r cs st rule: from_native_from_children.induct)
  case (1 pid d st)
  note IH = 1(1)
  from 1(2) obtain st1 d' cs where rf: "restore_fields pid d st = (st1, Inr d')"
    and ch: "children_of (map_of (dkeys d) ''children'') = Inr cs"
    by (auto split: prod.splits sum.splits)
  define st2 where "st2 = fst (new_article d' st1)"
  have na: "new_article d' st1 = (st2, r_next st)"
    using restore_fields_frame[OF rf] by (simp add: st2_def new_article_def)
  have st2: "r_next st2 = Suc (r_next st)" "r_heap st2 = (r_heap st)(r_next st := \<lparr>o_data = d', o_parent = None\<rparr>)"
    using restore_fields_frame[OF rf] by (simp_all add: st2_def new_article_def)
  show ?case
  proof (cases cs)
    case Nil
    with 1(2) rf na ch st2 show ?thesis by auto
  next
    case (Cons c0 cs0)
    with 1(2) rf na ch obtain st3 ts where
      fc: "from_children pid (r_next st) cs (st2\<lparr>r_many := True\<rparr>) = (st3, Inr ts)" and
      st': "st' = st3" "t = NList (NObj (r_next st) # ts)"
      by (auto split: prod.splits sum.splits)
    have lt: "r_next st < r_next (st2\<lparr>r_many := True\<rparr>)" using st2 by simp
    have r: "r_next (st2\<lparr>r_many := True\<rparr>) = Suc (r_next st)" and hp: "r_heap (st2\<lparr>r_many := True\<rparr>) = r_heap st2"
      using st2 by simp_all
    note h = IH[OF rf[symmetric] refl na[symmetric] ch[unfolded Cons] refl fc[unfolded Cons] lt, unfolded r hp]
    from h have c: "concat (map flatten ts) = [Suc (r_next st)..<r_next st3]" by (elim conjE)
    from h have le: "Suc (r_next st) \<le> r_next st3" by (elim conjE)
    from h c have p: "\<forall>x \<in> set [Suc (r_next st)..<r_next st3]. o_parent (r_heap st3 x) = Some (r_next st)"
      by (elim conjE) (simp only:)
    from h have f: "\<forall>y < Suc (r_next st). r_heap st3 y = r_heap st2 y" by (elim conjE)
    have "flatten t = [r_next st..<r_next st3]" using c le by (simp add: st' upt_conv_Cons)
    with p f le st' st2 show ?thesis by auto
  qed
next
  case (2 pid r st)
  then show ?case by simp
next
  case (3 pid r c cs st)
  from 3(3) obtain st1 x where fn: "from_native pid c st = (st1, Inr (NObj x))"
    by (auto split: prod.splits sum.splits ntree.splits)
  define st1' where "st1' = st1\<lparr>r_heap := (r_heap st1)(x := (r_heap st1 x)\<lparr>o_parent := Some r\<rparr>)\<rparr>"
  from 3(3) fn obtain ts' where fc: "from_children pid r cs st1' = (st', Inr ts')" and ts: "ts = NObj x # ts'"
    by (auto simp: st1'_def split: prod.splits sum.splits)
  from 3(1)[OF fn] have x: "x = r_next st" "r_next st1 = Suc (r_next st)"
    and f1: "\<forall>y < r_next st. r_heap st1 y = r_heap st y"
    by (auto simp: upt_single)
  have lt: "r < r_next st1'" using 3(4) x by (simp add: st1'_def)
  note h = 3(2)[OF fn[symmetric] refl refl fc[unfolded st1'_def], folded st1'_def, OF lt]
  from h have c: "concat (map flatten ts') = [r_next st1'..<r_next st']" by (elim conjE)
  from h have le: "r_next st1' \<le> r_next st'" by (elim conjE)
  from h have p: "\<forall>y \<in> set (concat (map flatten ts')). o_parent (r_heap st' y) = Some r" by (elim conjE)
  from h have o: "\<forall>t \<in> set ts'. \<exists>x. t = NObj x" by (elim conjE)
  from h have f: "\<forall>y < r_next st1'. r_heap st' y = r_heap st1' y" by (elim conjE)
  have n1: "r_next st1' = Suc (r_next st)" using x by (simp add: st1'_def)
  have A: "concat (map flatten ts) = [r_next st..<r_next st']"
    using c le n1 x by (simp add: ts upt_conv_Cons)
  have B: "r_next st \<le> r_next st'" using le n1 by simp
  have px: "o_parent (r_heap st' x) = Some r" using f n1 x by (simp add: st1'_def)
  have C: "\<forall>y \<in> set (concat (map flatten ts)). o_parent (r_heap st' y) = Some r"
  proof
    fix y assume "y \<in> set (concat (map flatten ts))"
    then have "y = x \<or> y \<in> set (concat (map flatten ts'))" by (simp add: ts)
    with p px show "o_parent (r_heap st' y) = Some r" by blast
  qed
  have D: "\<forall>t \<in> set ts. \<exists>x. t = NObj x" using o by (simp add: ts)
  have E: "\<forall>y < r_next st. r_heap st' y = r_heap st y" using f f1 n1 x by (simp add: st1'_def)
  from A B C D E show ?case by blast
qed

lemmas from_native_shape = native_shape(1)

lemma from_native_NObj:
  assumes "from_native pid c st = (st', Inr (NObj x))"
  shows "children_of (map_of (dkeys c) ''children'') = Inr []"
  using assms by (auto split: prod.splits sum.splits list.splits)

lemma from_children_flat:
  "from_children pid r cs st = (st', Inr ts) \<Longrightarrow> c \<in> set cs \<Longrightarrow> children_of (map_of (dkeys c) ''children'') = Inr []"
proof (induction cs arbitrary: st st' ts)
  case Nil
  then show ?case by simp
next
  case (Cons c0 cs)
  from Cons.prems(1) obtain st1 x where fn: "from_native pid c0 st = (st1, Inr (NObj x))"
    by (auto split: prod.splits sum.splits ntree.splits)
  from Cons.prems(1) fn obtain st2 ts' where
    "from_children pid r cs (st1\<lparr>r_heap := (r_heap st1)(x := (r_heap st1 x)\<lparr>o_parent := Some r\<rparr>)\<rparr>) = (st2, Inr ts')"
    by (auto split: prod.splits sum.splits)
  with Cons.IH Cons.prems(2) from_native_NObj[OF fn] show ?case by auto
qed

text \<open>
  C31. \<open>from_native\<close> succeeds only when no posted child has children of its own: for
  a grandchild, \<open>get_child\<close> assigns \<open>parent\<close> on the list its recursive call
  returned and raises \<open>AttributeError\<close> (\<open>ex_deep_fails\<close>), so \<open>_flatten\<close> never
  meets more than one level of nesting per posted item.
\<close>

theorem from_native_depth:
  assumes "from_native pid d st = (st', Inr t)" and "children_of (map_of (dkeys d) ''children'') = Inr cs"
    and "c \<in> set cs"
  shows "children_of (map_of (dkeys c) ''children'') = Inr []"
proof -
  from assms(3) obtain c0 cs0 where cs: "cs = c0 # cs0" by (cases cs) auto
  from assms(1) obtain st1 d' where rf: "restore_fields pid d st = (st1, Inr d')"
    by (auto split: prod.splits sum.splits)
  obtain st2 r where na: "new_article d' st1 = (st2, r)" by fastforce
  from assms(1) rf na assms(2) obtain st3 ts where
    "from_children pid r cs (st2\<lparr>r_many := True\<rparr>) = (st3, Inr ts)"
    by (simp add: cs split: prod.splits sum.splits)
  from from_children_flat[OF this assms(3)] show ?thesis .
qed

lemma take_upt_set: "j < b - a \<Longrightarrow> a \<in> set (take j [a..<b]) \<longleftrightarrow> 0 < j"
  by (cases j) (auto simp: upt_conv_Cons)

text \<open>
  C30. \<open>ArticleSerializer.save\<close> hands \<open>Article.create_articles\<close> exactly the objects
  \<open>from_native\<close> created, in creation order, and every object whose \<open>parent\<close> was set
  by \<open>get_child\<close> comes after that parent: the parent is stored first.
\<close>

theorem save_parent_first:
  assumes "from_native pid d st = (st', Inr t)" and "save_objects t st' = (st'', objs)"
  shows "objs = [r_next st..<r_next st'] \<and> r_saved st'' = r_saved st' @ objs \<and>
         (\<forall>j < length objs. \<forall>p. o_parent (r_heap st' (objs ! j)) = Some p \<longrightarrow> p \<in> set (take j objs))"
proof -
  note sh = from_native_shape[OF assms(1)]
  from assms(2) have o: "objs = flatten t" and s: "r_saved st'' = r_saved st' @ objs"
    by (auto simp: save_objects_def Let_def)
  from sh o have objs: "objs = [r_next st..<r_next st']" by simp
  have "p \<in> set (take j objs)" if j: "j < length objs" and p: "o_parent (r_heap st' (objs ! j)) = Some p" for j p
  proof (cases j)
    case 0
    with sh objs j p show ?thesis by simp
  next
    case (Suc k)
    with j have k: "k < length (tl objs)" by simp
    then have "objs ! j = tl objs ! k" by (simp add: Suc nth_tl)
    with k o have "objs ! j \<in> set (tl (flatten t))" by (metis nth_mem)
    with sh p have "p = r_next st" by auto
    with Suc j objs show ?thesis by (auto simp: take_upt_set)
  qed
  with objs s show ?thesis by blast
qed

lemma map_of_snoc_other: "map_of xs k = Some j \<Longrightarrow> map_of (xs @ [(m, v)]) k = Some j"
  by (induction xs) auto

lemma medium_get_or_create_ok:
  assumes "medium_get_or_create m st = (st1, i)"
  shows "map_of (r_medium_ids st1) m = Some i \<and> r_media st1 = r_media st \<and> r_lookups st1 = Suc (r_lookups st) \<and>
         (\<forall>k j. map_of (r_medium_ids st) k = Some j \<longrightarrow> map_of (r_medium_ids st1) k = Some j)"
  using assms by (auto simp: medium_get_or_create_def Let_def map_of_snoc_other map_add_def split: option.splits)

lemma medium_name_ok:
  assumes "media_ok st" and "medium_name m kvs st = (st', r)"
  shows "media_ok st' \<and> cache_has st' m \<and> (\<exists>i. r = Inr (AList.update ''medium'' (VInt i) kvs) \<and> map_of (r_medium_ids st') m = Some i) \<and>
         r_lookups st' = (if cache_has st m then r_lookups st else Suc (r_lookups st))"
proof (cases "cache_has st m")
  case True
  with assms show ?thesis
    by (auto simp: medium_name_def media_ok_def cache_has_def split: option.splits)
next
  case False
  obtain st1 i where g: "medium_get_or_create m st = (st1, i)" by fastforce
  note gi = medium_get_or_create_ok[OF g]
  from False assms(2) g have st': "st' = st1\<lparr>r_media := Some (AList.update m i (case r_media st of Some md \<Rightarrow> md | None \<Rightarrow> []))\<rparr>"
    and r: "r = Inr (AList.update ''medium'' (VInt i) kvs)"
    by (auto simp: medium_name_def cache_has_def split: option.splits)
  have "media_ok st'"
    using assms(1) gi by (auto simp: st' media_ok_def update_conv' split: option.splits)
  with gi False show ?thesis by (simp add: st' r cache_has_def update_conv')
qed

lemma restore_fields_cases:
  assumes "restore_fields pid d st = (st', Inr d')"
  shows "(st' = st \<and> (\<forall>m. map_of (dkeys d) ''medium'' = Some (VStr m) \<longrightarrow> py_int_ok m)
                   \<and> (\<forall>m cs. map_of (dkeys d) ''medium'' = Some (VJsonStr m cs) \<longrightarrow> py_int_ok m)) \<or>
         (\<exists>m kvs1. medium_name m (dkeys d) st = (st', Inr kvs1) \<and> \<not> py_int_ok m \<and>
            (map_of (dkeys d) ''medium'' = Some (VStr m) \<or> (\<exists>cs. map_of (dkeys d) ''medium'' = Some (VJsonStr m cs))) \<and>
            map_of (dkeys d') ''medium'' = map_of kvs1 ''medium'')"
  using assms
  by (auto simp: restore_fields_def restore_medium_def split: prod.splits sum.splits option.splits aval.splits if_splits
      dest!: restore_date_makes_stable intro: restore_project_keys[THEN conjunct1, THEN trans])

lemma ex_post_run:
  "snd (from_native 7 ex_post ex_rstate) = Inr (NList [NObj 0, NObj 1])"
  "r_next (fst (from_native 7 ex_post ex_rstate)) = 2"
  by (simp_all add: ex_post_def ex_child_def ex_rstate_def restore_fields_def restore_medium_def medium_name_def
        medium_get_or_create_def restore_date_def restore_project_def new_article_def py_int_ok_def py_strip_def
        is_space_def is_digit_def)

lemma ex_deep_fails:
  "snd (from_native 7 ex_deep ex_rstate) = Inl (AttributeError ''list object has no attribute parent'')"
  by (simp add: ex_deep_def ex_child_def ex_rstate_def restore_fields_def restore_medium_def
        restore_date_def restore_project_def new_article_def)

lemma restore_fields_state: "restore_fields pid d st = (st', r) \<Longrightarrow> st' = fst (restore_medium (dkeys d) st)"
  by (auto simp: restore_fields_def split: prod.splits sum.splits)

lemma restore_medium_cases:
  "fst (restore_medium kvs st) = st \<or> (\<exists>m. restore_medium kvs st = medium_name m kvs st)"
  by (auto simp: restore_medium_def split: option.splits aval.splits)

lemma restore_medium_state:
  assumes "media_ok st"
  shows "media_ok (fst (restore_medium kvs st)) \<and>
         r_lookups st \<le> r_lookups (fst (restore_medium kvs st)) \<and>
         r_lookups (fst (restore_medium kvs st)) \<le> Suc (r_lookups st) \<and>
         (r_lookups (fst (restore_medium kvs st)) \<noteq> r_lookups st \<longrightarrow>
            (\<exists>m. \<not> cache_has st m \<and> cache_has (fst (restore_medium kvs st)) m))"
  using restore_medium_cases[of kvs st]
proof
  assume "fst (restore_medium kvs st) = st"
  with assms show ?thesis by simp
next
  assume "\<exists>m. restore_medium kvs st = medium_name m kvs st"
  then obtain m where e: "restore_medium kvs st = medium_name m kvs st" by blast
  obtain st' r where n: "medium_name m kvs st = (st', r)" by fastforce
  from medium_name_ok[OF assms n] e n show ?thesis by auto
qed

text \<open>
  C33. Invariant of the medium cache: every name cached in \<open>self.media\<close> maps to the id
  the \<open>Medium\<close> table holds for that name, and \<open>restore_fields\<close> preserves this on
  every path, errors included.
\<close>

theorem restore_fields_media_ok:
  assumes "media_ok st" and "restore_fields pid d st = (st', r)"
  shows "media_ok st'"
  using restore_medium_state[OF assms(1)] restore_fields_state[OF assms(2)] by simp

text \<open>
  C35. Each \<open>restore_fields\<close> call makes at most one \<open>Medium.get_or_create\<close> call, and
  only for a name not yet cached, which it then caches: over a request the number of
  lookups is bounded by the number of distinct medium names.
\<close>

theorem restore_fields_lookups:
  assumes "media_ok st" and "restore_fields pid d st = (st', r)"
  shows "r_lookups st \<le> r_lookups st' \<and> r_lookups st' \<le> Suc (r_lookups st) \<and>
         (r_lookups st' \<noteq> r_lookups st \<longrightarrow> (\<exists>m. \<not> cache_has st m \<and> cache_has st' m))"
  using restore_medium_state[OF assms(1)] restore_fields_state[OF assms(2)] by simp

text \<open>
  A medium given by a name that \<open>int()\<close> rejects is replaced by the id the
  \<open>Medium\<close> table holds for that name (created if missing).
\<close>

lemma restore_fields_medium:
  assumes "media_ok st" and "restore_fields pid d st = (st', Inr d')"
    and "map_of (dkeys d) ''medium'' = Some (VStr m)" and "\<not> py_int_ok m"
  shows "\<exists>i. map_of (dkeys d') ''medium'' = Some (VInt i) \<and> map_of (r_medium_ids st') m = Some i"
proof -
  from restore_fields_cases[OF assms(2)] assms(3,4) obtain kvs1 where
    n: "medium_name m (dkeys d) st = (st', Inr kvs1)" and k: "map_of (dkeys d') ''medium'' = map_of kvs1 ''medium''"
    by auto
  from medium_name_ok[OF assms(1) n] k show ?thesis by (auto simp: update_conv')
qed

lemma serialize_cached:
  "p_cache s = Some f \<Longrightarrow> serialize_projects favs i ps s = (s, map (\<lambda>p. p \<in> f) ps)"
  by (induction ps arbitrary: i) (simp_all add: is_favourite_def favourite_projects_def)

text \<open>
  C36. \<open>ProjectSerializer\<close> queries the user's favourites at most once: every
  \<open>is_favourite\<close> answer of one serializer comes from the first query (or the cache),
  even if the favourites change in between.
\<close>

theorem serialize_projects_cached:
  assumes "serialize_projects favs i ps s = (s', bs)"
  shows "p_queries s' \<le> Suc (p_queries s) \<and>
         bs = map (\<lambda>p. p \<in> (case p_cache s of Some f \<Rightarrow> f | None \<Rightarrow> favs i)) ps"
proof (cases "p_cache s")
  case None
  show ?thesis
  proof (cases ps)
    case Nil
    with assms show ?thesis by simp
  next
    case (Cons p ps')
    let ?s1 = "s\<lparr>p_cache := Some (favs i), p_queries := Suc (p_queries s)\<rparr>"
    have "serialize_projects favs i ps s = apsnd (Cons (p \<in> favs i)) (serialize_projects favs (Suc i) ps' ?s1)"
      using None by (simp add: Cons is_favourite_def favourite_projects_def)
    also have "\<dots> = (?s1, map (\<lambda>p. p \<in> favs i) ps)"
      by (simp add: serialize_cached Cons)
    finally show ?thesis using assms None by simp
  qed
next
  case (Some f)
  with assms serialize_cached[OF Some] show ?thesis by simp
qed

lemma pair_snd_Inr: "snd x = Inr v \<Longrightarrow> \<exists>a. x = (a, Inr v)"
  by (cases x) auto

lemma ex_restore:
  "snd (restore_fields 7 ex_post ex_rstate) =
     Inr (AData [(''headline'', VStr ''news''), (''medium'', VInt 2), (''date'', VStr ''2014-01-01T00:00''),
                 (''children'', VList [ex_child]), (''project'', VInt 7)])"
  "r_lookups (fst (restore_fields 7 ex_post ex_rstate)) = 1"
  "r_medium_ids (fst (restore_fields 7 ex_post ex_rstate)) = [(''NRC'', 1), (''Trouw'', 2)]"
  "media_ok ex_rstate"
  by (simp_all add: ex_post_def ex_rstate_def restore_fields_def restore_medium_def medium_name_def
        medium_get_or_create_def restore_date_def restore_project_def py_int_ok_def py_strip_def
        is_space_def is_digit_def media_ok_def)

theorem save_parent_first_witness:
  "\<exists>st' st'' objs. from_native 7 ex_post ex_rstate = (st', Inr (NList [NObj 0, NObj 1])) \<and>
     save_objects (NList [NObj 0, NObj 1]) st' = (st'', objs) \<and> objs = [0, 1] \<and>
     o_parent (r_heap st' 1) = Some 0"
proof -
  obtain st' where f: "from_native 7 ex_post ex_rstate = (st', Inr (NList [NObj 0, NObj 1]))"
    using pair_snd_Inr[OF ex_post_run(1)] by blast
  obtain st'' objs where s: "save_objects (NList [NObj 0, NObj 1]) st' = (st'', objs)" by fastforce
  have n: "r_next st' = 2" using ex_post_run(2) f by simp
  from save_parent_first[OF f s] n have "objs = [0, 1]"
    by (simp add: ex_rstate_def numeral_2_eq_2 upt_conv_Cons)
  moreover from from_native_shape[OF f] n have "o_parent (r_heap st' 1) = Some 0" by (simp add: ex_rstate_def)
  ultimately show ?thesis using f s by blast
qed

theorem from_native_depth_witness:
  "\<exists>st' t. from_native 7 ex_post ex_rstate = (st', Inr t) \<and>
     children_of (map_of (dkeys ex_post) ''children'') = Inr [ex_child] \<and> ex_child \<in> set [ex_child] \<and>
     children_of (map_of (dkeys ex_child) ''children'') = Inr []"
proof -
  obtain st' where f: "from_native 7 ex_post ex_rstate = (st', Inr (NList [NObj 0, NObj 1]))"
    using pair_snd_Inr[OF ex_post_run(1)] by blast
  have c: "children_of (map_of (dkeys ex_post) ''children'') = Inr [ex_child]" by (simp add: ex_post_def)
  from from_native_depth[OF f c] f c show ?thesis by auto
qed

theorem restore_fields_idempotent_witness:
  "\<exists>st' d'. restore_fields 7 ex_post ex_rstate = (st', Inr d') \<and> restore_fields 7 d' st' = (st', Inr d')"
proof -
  obtain st' d' where r: "restore_fields 7 ex_post ex_rstate = (st', Inr d')"
    using pair_snd_Inr[OF ex_restore(1)] by blast
  from restore_fields_idempotent[OF r] r show ?thesis by blast
qed

theorem restore_fields_media_ok_witness:
  "media_ok ex_rstate \<and> (\<exists>st' r. restore_fields 7 ex_post ex_rstate = (st', r) \<and> media_ok st')"
proof -
  obtain st' r where r: "restore_fields 7 ex_post ex_rstate = (st', r)" by fastforce
  from restore_fields_media_ok[OF ex_restore(4) r] r ex_restore(4) show ?thesis by blast
qed

theorem restore_fields_lookups_witness:
  "media_ok ex_rstate \<and>
   (\<exists>st' r. restore_fields 7 ex_post ex_rstate = (st', r) \<and> r_lookups st' = 1 \<and>
      (\<exists>m. \<not> cache_has ex_rstate m \<and> cache_has st' m))"
proof -
  obtain st' r where r: "restore_fields 7 ex_post ex_rstate = (st', r)" by fastforce
  have l: "r_lookups st' = 1" using ex_restore(2) r by simp
  from restore_fields_lookups[OF ex_restore(4) r] l have "\<exists>m. \<not> cache_has ex_rstate m \<and> cache_has st' m"
    by (simp add: ex_rstate_def)
  with r l ex_restore(4) show ?thesis by blast
qed

lemma restore_fields_medium_example:
  "media_ok ex_rstate \<and> map_of (dkeys ex_post) ''medium'' = Some (VStr ''Trouw'') \<and> \<not> py_int_ok ''Trouw'' \<and>
   (\<exists>st' d'. restore_fields 7 ex_post ex_rstate = (st', Inr d') \<and>
      map_of (dkeys d') ''medium'' = Some (VInt 2) \<and> map_of (r_medium_ids st') ''Trouw'' = Some 2)"
proof -
  obtain st' d' where r: "restore_fields 7 ex_post ex_rstate = (st', Inr d')"
    using pair_snd_Inr[OF ex_restore(1)] by blast
  have m: "map_of (dkeys ex_post) ''medium'' = Some (VStr ''Trouw'')" by (simp add: ex_post_def)
  have p: "\<not> py_int_ok ''Trouw''" by (simp add: py_int_ok_def py_strip_def is_space_def is_digit_def)
  have ids: "r_medium_ids st' = [(''NRC'', 1), (''Trouw'', 2)]" using ex_restore(3) r by simp
  from restore_fields_medium[OF ex_restore(4) r m p] ids have "map_of (dkeys d') ''medium'' = Some (VInt 2)"
    by auto
  with r m p ids ex_restore(4) show ?thesis by auto
qed

theorem serialize_projects_cached_witness:
  "\<exists>s'. serialize_projects (\<lambda>i. if i = 0 then {1, 2} else {}) 0 [1, 3, 2] \<lparr>p_cache = None, p_queries = 0\<rparr> =
     (s', [True, False, True]) \<and> p_queries s' \<le> 1"
proof -
  obtain s' bs where r: "serialize_projects (\<lambda>i. if i = 0 then {1, 2} else {}) 0 [1, 3, 2] \<lparr>p_cache = None, p_queries = 0\<rparr> = (s', bs)"
    by fastforce
  from serialize_projects_cached[OF r] r show ?thesis by auto
qed

end
