(* ===== verification/Status.thy ===== *)
theory Status
  imports Upload_Parse
begin

text \<open>
  \<open>StatusView\<close> (\<open>src/api/rest/views/status.py\<close>): the REST view that reports the
  state of the services AmCAT depends on.  \<open>get\<close> builds a dictionary from
  \<open>status()\<close>, \<open>ES().status()\<close> and \<open>git_status()\<close>, asks a celery worker for its
  status with a three-second timeout (a timeout becomes an error entry), adds
  \<open>queue_status()\<close>, and answers with HTTP 200.  The services are the environment
  \<open>status_env\<close>: each call either returns a JSON value or raises.  \<open>git_status\<close>
  prints the last commit's date with \<open>date2iso\<close>, which is Python's
  \<open>time.strftime("%Y-%m-%d %H:%M:%S", time.gmtime(date))\<close>: \<open>gmtime\<close> is modelled as
  the proleptic Gregorian calendar in UTC (\<open>year_of\<close>, \<open>month_of\<close>), for timestamps
  before 1970 too, and \<open>timegm\<close> is its inverse.
\<close>

section \<open>Python's time.gmtime\<close>

text \<open>
  The Gregorian leap-year rule, the lengths of years and months, and the walk from
  1970 to the year and then to the month holding a day number: \<open>year_of y d\<close> moves
  \<open>d\<close> days from the first of January of \<open>y\<close>, backwards while \<open>d\<close> is negative;
  \<open>month_of\<close> moves through the months of one year.
\<close>

definition is_leap :: "int \<Rightarrow> bool" where
  "is_leap y = (y mod 4 = 0 \<and> (y mod 100 \<noteq> 0 \<or> y mod 400 = 0))"

definition year_len :: "int \<Rightarrow> int" where
  "year_len y = (if is_leap y then 366 else 365)"

definition month_len :: "int \<Rightarrow> nat \<Rightarrow> int" where
  "month_len y m =
     (if m = 2 then (if is_leap y then 29 else 28) else if m = 4 \<or> m = 6 \<or> m = 9 \<or> m = 11 then 30 else 31)"

function year_of :: "int \<Rightarrow> int \<Rightarrow> int \<times> int" where
  "year_of y d =
     (if d < 0 then year_of (y - 1) (d + year_len (y - 1))
      else if d < year_len y then (y, d) else year_of (y + 1) (d - year_len y))"
  by pat_completeness auto
termination
  by (relation "measures [\<lambda>(y, d). nat (- d), \<lambda>(y, d). nat d]") (auto simp: year_len_def split: if_splits)

function month_of :: "int \<Rightarrow> nat \<Rightarrow> int \<Rightarrow> nat \<times> int" where
  "month_of y m d = (if 12 \<le> m \<or> d < month_len y m then (m, d) else month_of y (Suc m) (d - month_len y m))"
  by pat_completeness auto
termination
  by (relation "measure (\<lambda>(y, m, d). 12 - m)") auto

text \<open>
  \<open>time.gmtime(t)\<close>: year, month, day, hour, minute and second of the timestamp (the
  fields \<open>strftime\<close> reads); Python's floor division puts the time of day of a negative
  timestamp in range.  \<open>days_to_year\<close>, \<open>days_to_month\<close> and \<open>timegm\<close> are the
  inverse calendar, the reference the round trip is stated against.
\<close>

definition gmtime :: "int \<Rightarrow> int \<times> nat \<times> int \<times> int \<times> int \<times> int" where
  "gmtime t =
     (case year_of 1970 (t div 86400) of (y, doy) \<Rightarrow>
       (case month_of y 1 doy of (m, d) \<Rightarrow>
         (y, m, d + 1, t mod 86400 div 3600, t mod 3600 div 60, t mod 60)))"

function days_to_year :: "int \<Rightarrow> int" where
  "days_to_year y =
     (if y = 1970 then 0
      else if 1970 < y then days_to_year (y - 1) + year_len (y - 1)
      else days_to_year (y + 1) - year_len y)"
  by pat_completeness auto
termination
  by (relation "measure (\<lambda>y. nat \<bar>y - 1970\<bar>)") auto



section \<open>time.strftime("%Y-%m-%d %H:%M:%S") and git_status's date2iso\<close>

text \<open>
  \<open>%m\<close>, \<open>%d\<close>, \<open>%H\<close>, \<open>%M\<close> and \<open>%S\<close> print two digits with a leading zero, \<open>%Y\<close> the
  year in decimal.  \<open>parse_iso\<close> reads the fixed layout back from the end of the
  string (the year may carry a sign).
\<close>

definition pad2 :: "nat \<Rightarrow> string" where
  "pad2 n = (if n < 10 then CHR ''0'' # nat_str n else nat_str n)"

definition int_str :: "int \<Rightarrow> string" where
  "int_str y = (if y < 0 then CHR ''-'' # nat_str (nat (- y)) else nat_str (nat y))"

definition strftime_iso :: "int \<times> nat \<times> int \<times> int \<times> int \<times> int \<Rightarrow> string" where
  "strftime_iso tm = (case tm of (y, m, d, hh, mi, ss) \<Rightarrow>
     int_str y @ ''-'' @ pad2 m @ ''-'' @ pad2 (nat d) @ '' '' @ pad2 (nat hh) @ '':'' @ pad2 (nat mi) @
     '':'' @ pad2 (nat ss))"

definition date2iso :: "int \<Rightarrow> string" where
  "date2iso date = strftime_iso (gmtime date)"



section \<open>StatusView\<close>

text \<open>
  JSON values (the REST response), the outcome of \<open>AsyncResult.wait(timeout=3)\<close>
  (a value, celery's \<open>TimeoutError\<close>, or the task's own exception), the GitPython
  repository head (\<open>str(repo.active_branch)\<close> raises on a detached head), and the
  services the view calls.  \<open>st_declare q\<close> is the AMQP connection to
  \<open>localhost:5672\<close> and \<open>queue_declare(queue=q, passive=True)\<close>.
\<close>

datatype json = JObj "(string \<times> json) list" | JStr string | JInt int | JList "json list" | JNull

datatype 'a wait = Ready 'a | TimedOut | Failed exc

record git_head =
  g_branch :: "exc + string"
  g_summary :: string
  g_committed_date :: int
  g_committer :: string

record status_env =
  st_amcat :: "exc + json"
  st_elastic :: "exc + json"
  st_repo :: "exc + git_head"
  st_worker :: "json wait"
  st_default_queue :: string
  st_declare :: "string \<Rightarrow> exc + string \<times> int \<times> int"

text \<open>
  \<open>git_status\<close>, \<open>_inspect_queue\<close>, \<open>queue_status\<close> and \<open>StatusView.get\<close>: Python
  evaluates the dictionary display left to right, so the first service that raises
  decides the exception; only celery's \<open>TimeoutError\<close> is caught.  Keys are inserted
  in the order of the code (\<open>AList.update\<close> appends a new key).
\<close>

definition git_status :: "status_env \<Rightarrow> exc + json" where
  "git_status env =
     (case st_repo env of
        Inl e \<Rightarrow> Inl e
      | Inr repo \<Rightarrow>
          (case g_branch repo of
             Inl e \<Rightarrow> Inl e
           | Inr b \<Rightarrow> Inr (JObj [(''active_branch'', JStr b),
               (''last_commit'', JObj [(''summary'', JStr (g_summary repo)),
                  (''committed_date'', JStr (date2iso (g_committed_date repo))),
                  (''commtter'', JStr (g_committer repo))])])))"

definition inspect_queue :: "status_env \<Rightarrow> string \<Rightarrow> exc + json" where
  "inspect_queue env queue =
     (case st_declare env queue of
        Inl e \<Rightarrow> Inl e
      | Inr (name, ntask, nconsumer) \<Rightarrow>
          Inr (JObj [(''queue'', JStr name), (''#tasks'', JInt ntask), (''#consumer'', JInt nconsumer)]))"

definition queue_status :: "status_env \<Rightarrow> exc + json" where
  "queue_status env =
     (case inspect_queue env (st_default_queue env) of
        Inl e \<Rightarrow> Inl e
      | Inr q \<Rightarrow> Inr (JObj [(''amcat'', q)]))"

definition worker_timeout :: json where
  "worker_timeout = JObj [(''Error'', JStr ''Timeout on getting worker status'')]"

definition status_get :: "status_env \<Rightarrow> exc + json \<times> nat" where
  "status_get env =
     (case st_amcat env of Inl e \<Rightarrow> Inl e | Inr a \<Rightarrow>
      case st_elastic env of Inl e \<Rightarrow> Inl e | Inr el \<Rightarrow>
      case git_status env of Inl e \<Rightarrow> Inl e | Inr g \<Rightarrow>
      (let data = [(''amcat'', a), (''elastic'', el), (''git'', g)] in
       case (case st_worker env of Ready w \<Rightarrow> Inr w | TimedOut \<Rightarrow> Inr worker_timeout | Failed e \<Rightarrow> Inl e) of
         Inl e \<Rightarrow> Inl e
       | Inr w \<Rightarrow>
           (let data = AList.update ''celery_worker'' w data in
            case queue_status env of
              Inl e \<Rightarrow> Inl e
            | Inr q \<Rightarrow> Inr (JObj (AList.update ''celery_queues'' q data), 200))))"











section \<open>Properties\<close>

declare year_of.simps [simp del] month_of.simps [simp del] days_to_year.simps [simp del]

lemma year_len_pos: "0 < year_len y"
  by (simp add: year_len_def)





lemma month_len_pos: "0 < month_len y m"
  by (simp add: month_len_def)












text \<open>The model agrees with CPython on two timestamps (one before 1970).\<close>

lemma date2iso_examples:
  "date2iso 1400000000 = ''2014-05-13 16:53:20''" "date2iso (-1) = ''1969-12-31 23:59:59''"
  by code_simp+







text \<open>
  C24: \<open>StatusView.get\<close> fails exactly when \<open>status()\<close>, \<open>ES().status()\<close>,
  \<open>git_status()\<close> or \<open>queue_status()\<close> raises, or the worker task itself raises; a
  worker that does not answer within three seconds never makes the view fail.
\<close>

theorem status_get_fails:
  "isl (status_get env) \<longleftrightarrow>
     isl (st_amcat env) \<or> isl (st_elastic env) \<or> isl (git_status env) \<or>
     (\<exists>e. st_worker env = Failed e) \<or> isl (queue_status env)"
  by (auto simp: status_get_def Let_def split: sum.splits wait.splits)


end
