(* ===== verification/Spec2Isabelle.thy ===== *)
theory Spec2Isabelle
  imports PoolRetry Isolation Upload_Script RestArticle Status
begin

text \<open>
  \<^bold>\<open>A verification development of AmCAT's harvesting controller, article upload and REST serializers.\<close>

  \<^bold>\<open>The program.\<close>  \<open>src/amcat/scraping/controller.py\<close> drives pluggable harvesters
  (scrapers): \<open>Controller.scrape\<close> runs a controller-specific \<open>_scrape\<close> on each
  harvester, adds the returned articles to the harvester's article set, optionally
  requests deduplication, and flags the used sets for reindexing.  The sequential
  \<open>SimpleController\<close> aborts a harvester on the first exception; the isolating
  \<open>RobustController\<close> records per-unit failures in \<open>self.errors\<close> and goes on.  Both
  persist each unit's articles with \<open>Controller.save_in_order\<close>, which saves parents
  before children through \<open>Controller.save\<close>, a save scoped by a database savepoint.
  \<open>ThreadedController\<close> spreads one harvester's units over a pool of worker threads
  with retry and saves their articles through a single committer thread.
  \<open>src/amcat/scripts/article_upload/upload.py\<close> is the base of the upload scripts: it
  parses uploaded files into articles (\<open>article_from_dict\<close>, \<open>_scrape_unit\<close>,
  \<open>parse_file\<close>) and stores them (\<open>run\<close>).  \<open>src/api/rest\<close> holds the REST
  serializers: \<open>ArticleSerializer\<close> normalises posted articles, builds articles with
  nested children and stores them flattened; \<open>ProjectSerializer\<close> marks favourites.

  \<^bold>\<open>Theories.\<close>
  \<^item> \<open>Prelude\<close>: Python exceptions as the datatype \<open>exc\<close>; a generator consumed to its
    end as \<open>'a gen\<close> (items and the exception that stopped it) and \<open>py_list\<close> for
    \<open>list(g)\<close>; shared list lemmas.
  \<^item> \<open>Persistence\<close>: the collaborators the controller calls but which are not under
    \<open>src/\<close>, modelled from spec section 6 and Django's documented behaviour: a heap of
    Python article objects (\<open>heap\<close>, \<open>article\<close>, \<open>pref\<close>), Django's key-based
    \<open>Model.__eq__\<close> (\<open>py_eq\<close>), a transaction (\<open>db\<close>: a row log, the key sequence and
    PostgreSQL's aborted flag), \<open>Model.save\<close> (\<open>model_save\<close>, \<open>db_write\<close>, with a
    constraint oracle \<open>chk\<close>) and savepoints (\<open>savepoint\<close>, \<open>savepoint_rollback\<close>).
  \<^item> \<open>Saver\<close>: \<open>Controller.save\<close> (\<open>save\<close>, lines 78--90) and
    \<open>Controller.save_in_order\<close> (\<open>roots\<close>, \<open>adopt\<close>, \<open>sio_loop\<close>, \<open>save_in_order\<close>,
    lines 92--108) on the state \<open>mem\<close> = heap \<open>\<times>\<close> transaction.  The work list grows
    while the loop runs, so \<open>sio_loop\<close> takes fuel and \<open>None\<close> is running out of it.
  \<^item> \<open>Controllers\<close>: \<open>SimpleController._scrape\<close> (\<open>simple_units\<close>, \<open>simple_scrape\<close>),
    \<open>RobustController._scrape\<close> and \<open>scrape_unit\<close> (\<open>robust_units\<close>,
    \<open>robust_scrape\<close>), \<open>Controller.scrape\<close> (\<open>scrape_loop\<close>, \<open>after_scrape\<close>,
    \<open>scrape\<close>) on the state \<open>cstate\<close> (heap, transaction, next free object,
    \<open>errors\<close>) and the external article sets \<open>sets\<close>; the test scrapers of the file
    (\<open>test_scraper\<close>, \<open>error_scraper\<close>, \<open>test_chk\<close>).  A harvester is data: its
    discovery generator and per-unit generator (\<open>harvester\<close>).
  \<^item> \<open>Pooled\<close>: \<open>ThreadedController\<close> (controller.py 172--199) as two inductive step
    relations, \<open>wstep\<close> for the worker threads that \<open>_scrape_to_queue\<close> starts and
    \<open>pstep\<close> for the whole pool (workers, \<open>done\<close> flag, committer), on the pool state \<open>pstate\<close> (work queue, workers \<open>wstate\<close>,
    results queue with its \<open>done\<close> flag, heap and transaction, \<open>result\<close>): a worker
    takes a unit, attempts it (the harvester's answer may differ per attempt), retries
    within the budget \<open>R\<close> or gives up, and puts the unit's articles on the queue one
    by one; the main thread sets \<open>done\<close>; the single committer applies
    \<open>Controller.save\<close> (\<open>save\<close> of \<open>Saver\<close>) to the head of the queue.  \<open>pinit\<close> is
    \<open>scrape\<close>'s start, \<open>pfinal\<close> the return of \<open>join\<close>.  The helpers of
    \<open>multithread\<close> are not under \<open>src/\<close>; they follow spec sections 4.4 and 5.
  \<^item> \<open>PoolEquiv\<close>: \<open>ThreadedController.scrape\<close> as a relation between a
    controller state, the returned list and the final state (\<open>threaded_scrape\<close>:
    the pool of \<open>Pooled\<close> from \<open>pinit\<close> to a state where \<open>join\<close> returns), and the
    description of the heap and transaction after a prefix of a batch of articles
    without parents was created and saved (\<open>flat_heap\<close>, \<open>flat_db\<close>), against
    which both controllers are run.
  \<^item> \<open>FlatSave\<close>: articles without parents in their batch that the database
    accepts (\<open>flat_accepted\<close>, \<open>unsaved_ok\<close>); \<open>Controller.save\<close> keeps every
    payload and parent and saves such an article, and \<open>save_in_order\<close>'s loop
    saves a batch of them in order, one row each (\<open>sio_loop_accepted\<close>).
  \<^item> \<open>Isolation\<close>: the isolating policy's promise for numbered units
    (\<open>iso_errors\<close>: one \<open>ScrapeError\<close> per raising unit; \<open>iso_payloads\<close>: the
    articles of the others, in unit order) and the harvester of spec section 8
    (\<open>iso_scraper\<close>: units \<open>[u0, u1, u2]\<close>, \<open>u1\<close> raising).
  \<^item> \<open>PoolRetry\<close>: the retry policy's promise for a unit (\<open>first_ok\<close>, the first
    of the \<open>max 1 R\<close> attempts that does not raise, and \<open>unit_yield\<close>, its articles),
    and the invariant \<open>rb_inv\<close> of the pool of \<open>Pooled\<close> with any number of workers:
    the objects saved, queued or held by an emitting worker (\<open>pipe\<close>) carry, for
    each unit that is no longer queued or attempted, exactly the payloads it
    promised (\<open>unit_ok\<close>), and none for the others; a unit is in \<open>p_failed\<close>
    exactly when it is done and every attempt raised (\<open>fail_ok\<close>).
  \<^item> \<open>Upload_Parse\<close>: Python dictionaries as association lists (\<open>dict_get\<close>,
    \<open>dict_pop\<close>), \<open>article_from_dict\<close> with the field map (\<open>map_field\<close>,
    \<open>map_fields\<close>, \<open>mapped_fields\<close>, \<open>pop_fields\<close>), \<open>get_required\<close>,
    \<open>explain_error\<close> with the decimal printing \<open>nat_str\<close>, \<open>_scrape_unit\<close>
    (\<open>scrape_unit_u\<close>) and \<open>parse_file\<close> (\<open>parse_units\<close>).
  \<^item> \<open>Upload_Run\<close>: \<open>UploadScript.run\<close> (\<open>run_hook\<close>, taking a subclass's
    \<open>postprocess\<close>, and \<open>run\<close> with the base class's, \<open>parse_all\<close>) on the state \<open>ustate\<close>
    (\<open>self.errors\<close>, the options, and the database it writes), the memoising
    property \<open>articlesets\<close>, \<open>get_provenance\<close> and the provenance update,
    \<open>_set_project\<close>, and \<open>UploadForm.clean_articleset_name\<close>.
  \<^item> \<open>Upload_Script\<close>: what surrounds \<open>run\<close>: the fields of \<open>UploadForm\<close> and
    \<open>get_empty\<close> (\<open>upload_form\<close>, \<open>new_upload_form\<close>), Django's cleaning of those
    fields together with \<open>clean_articleset_name\<close> (\<open>clean_project\<close>, \<open>clean_sets\<close>,
    \<open>clean_name\<close>, \<open>clean_form\<close>), \<open>UploadScript.__init__\<close> (\<open>script_init\<close>),
    \<open>decode\<close>, the cached property \<open>uploaded_texts\<close>, \<open>_get_files\<close> and
    \<open>_get_units\<close> (\<open>upload_script\<close>), and a whole request (\<open>upload\<close>: clean the form,
    construct the script from the cleaned data, run it).
  \<^item> \<open>RestArticle\<close>: posted data as the nested datatype \<open>adata\<close>/\<open>aval\<close>;
    \<open>ArticleSerializer.restore_fields\<close> (\<open>restore_medium\<close>, \<open>medium_name\<close>,
    \<open>restore_date\<close>, \<open>restore_project\<close>) on the state \<open>rstate\<close> (the cache
    \<open>self.media\<close>, the \<open>Medium\<close> table, created objects); \<open>from_native\<close> and its
    \<open>get_child\<close> loop (\<open>from_children\<close>), mutually recursive over the posted tree and
    terminating by its size; \<open>save\<close> with \<open>_flatten\<close> (\<open>save_objects\<close>,
    \<open>flatten\<close>); \<open>ProjectSerializer.is_favourite\<close> with its cached property.
  \<^item> \<open>ControllerTests\<close>: \<open>TestController.test_scraper\<close> and \<open>test_set\<close>
    (\<open>test_scraper_test\<close>, \<open>test_set_test\<close>: their assertions on a
    \<open>SimpleController\<close> scrape, the project's articles being the rows written,
    \<open>new_rows\<close>), \<open>TestRobustController.test_rollback\<close> (\<open>test_rollback_test\<close>),
    \<open>TestController.test_threaded\<close> (\<open>test_threaded\<close>:
    \<open>_scrape_to_queue\<close> as \<open>wstep\<close> run until it can return, \<open>scrape_to_queue\<close>, then
    the in-thread save loop \<open>save_queue\<close>) and the two production tests of
    controller.py, up to the statement at which they raise.
  \<^item> \<open>Status\<close>: \<open>StatusView.get\<close> (\<open>status_get\<close>), \<open>queue_status\<close> (with
    \<open>inspect_queue\<close>) and \<open>git_status\<close> (with \<open>date2iso\<close>) of
    \<open>src/api/rest/views/status.py\<close>, as functions of the answers of the services they
    call (\<open>status_env\<close>: each answer a JSON value \<open>json\<close> or an exception); Python's
    \<open>time.gmtime\<close> as the UTC Gregorian calendar (\<open>year_of\<close>, \<open>month_of\<close>, terminating
    by the distance to the target year and month) and \<open>strftime\<close>'s layout.

  \<^bold>\<open>What is proved.\<close>
  \<^item> Saver (C1--C8): on a batch of distinct new articles, \<open>save_in_order\<close> yields
    parents before children, drops the children of a failed save, writes exactly one
    row per yielded article in yield order, writes only foreign keys to rows that
    already exist, yields each article at most once, and finishes within
    \<open>length B + 1\<close> iterations; a failed \<open>save\<close> rolls the transaction back to its
    savepoint; with two in-memory copies of one stored row the loop diverges.
  \<^item> Controllers (C9, C11--C14): the file's own tests hold for every size; a discovery
    failure of \<open>RobustController\<close> never reaches the caller; \<open>errors\<close> only grows;
    zero output is fatal exactly when nothing was written; \<open>Controller.scrape\<close> refines
    running each \<open>_scrape\<close> in turn (\<open>scrape_each\<close>); an aborted \<open>SimpleController\<close>
    harvester leaves rows written but attached to no set (lemma
    \<open>simple_abort_keeps_rows\<close>); \<open>test_rollback\<close>'s run is lemma
    \<open>error_scraper_rollback\<close>.
  \<^item> Isolation (C10): spec section 8's isolation holds for every harvester whose
    discovery succeeds and whose articles have no in-batch parents and are
    accepted: \<open>RobustController._scrape\<close> appends exactly the promised errors,
    writes and returns the articles of the other units in unit order, and raises
    only when none gave an article (induction over the unit loop,
    \<open>robust_units_iso\<close>).
  \<^item> PoolRetry (C15): spec section 8's retry budget holds for every number of
    workers and every interleaving, for a harvester whose articles have no in-batch
    parents and are accepted: when the pool has finished, the committer saved for
    each unit exactly the articles of its first attempt that did not raise within
    the budget, once each and in creation order, and nothing for a unit whose every
    attempt raised; and the pool logged as failed exactly the units whose every
    attempt raised (\<open>fail_ok\<close>).  The proof is a rule induction over \<open>pstep\<close> with \<open>rb_inv\<close>,
    using the invariants \<open>pinv\<close> and \<open>tinv\<close> of \<open>Pooled\<close>; the ghost
    \<open>p_owner\<close> names the unit that created each article.
  \<^item> Upload_Parse (C16--C19): a field map reading same-named columns round-trips the
    row through the article; \<open>article_from_dict\<close> succeeds exactly when every field
    resolves and every required field is set, and fails only with
    \<open>MissingValueError\<close> of a field without value; \<open>parse_file\<close> yields in order and
    rewrites a parse error with the failing unit's 1-based number, and yields every
    unit's items in order when none raises (lemma \<open>parse_file_ok\<close>; the lemmas
    \<open>nat_str_roundtrip\<close> and \<open>explain_error_inj\<close>: the number reads back and identifies
    the unit).
  \<^item> Upload_Run (C23, C25--C28): per-article errors make \<open>run\<close> raise with a malformed
    payload; the \<open>No articles were imported\<close> branch is dead (an empty upload already
    raised \<open>ValueError\<close>, lemma \<open>run_empty_upload\<close>); a clean upload stores the articles, fills exactly the
    target sets, creates at most one set and appends the provenance line;
    \<open>clean_articleset_name\<close> skips its check when a file is uploaded; a subclass's
    \<open>postprocess\<close> cannot remove articles from the sets, contrary to its docstring
    (lemma \<open>postprocess_keeps_sets\<close>).
  \<^item> Upload_Script (C29): an upload with a file and no set name fills the chosen sets,
    or, when none is chosen, one new set named after the file; so the file name that
    \<open>clean_articleset_name\<close> returns even when sets are chosen is never used.  A form
    made by \<open>get_empty\<close> for a project accepts exactly that project's sets; choosing
    both sets and a name is rejected, and an invalid set hides the name check;
    \<open>uploaded_texts\<close> reads the form once.
  \<^item> RestArticle (C30--C33, C35, C36): \<open>save\<close> stores the created objects parents
    first; \<open>from_native\<close> fails on grandchildren; \<open>restore_fields\<close> is idempotent,
    keeps the medium cache consistent with the \<open>Medium\<close> table and looks each name up
    at most once (lemma \<open>restore_fields_medium\<close>: names resolve to their ids);
    favourites are queried once.
  \<^item> ControllerTests (C34): \<open>test_threaded\<close> passes for every number of units and
    threads and every interleaving: the workers can finish, and whenever they do the
    queue holds the \<open>n\<close> new, distinct, savable articles (the invariant \<open>tq_inv\<close>), so
    the save loop writes \<open>n\<close> rows.  The other three unit tests pass for every size
    and start state (lemmas \<open>test_scraper_test_passes\<close>, \<open>test_set_test_passes\<close>,
    \<open>test_rollback_test_passes\<close>; the returned objects carry exactly the keys of the
    rows written).  The production tests always raise (\<open>TypeError\<close>
    and \<open>NameError\<close>, lemma \<open>production_tests_raise\<close>).

  \<^item> Pooled (C37--C40): \<open>pstep\<close> is well-founded (the measure \<open>pmeasure\<close> counts the
    attempts, articles, commits and the \<open>done\<close> step left, each attempt of a unit at
    most \<open>max 1 R\<close> times), so every interleaving is finite; from any state with a
    worker some interleaving reaches the final state; in every reachable state the
    committer's \<open>result\<close> keeps each unit's articles in creation order (the
    invariant \<open>pinv\<close>: fresh addresses, per-worker order, one holder per unit); at the
    end every unit was attempted between once and \<open>max 1 R\<close> times (\<open>tinv\<close>).
  \<^item> PoolEquiv (C20): spec section 8's pool equivalence holds for
    \<open>ThreadedController\<close> with one worker and a harvester that answers every attempt
    alike, never raises and makes articles without in-batch parents that the
    database accepts: every returning run leaves the same heap, transaction and next
    free object as \<open>SimpleController._scrape\<close> and returns the same articles in the
    same order (the invariant \<open>pool1_at\<close> of the one-worker pool, and
    \<open>simple_units_flat\<close> for the sequential loop).  Outside these conditions the two
    differ by design: a failing unit is retried and skipped by the pool but aborts
    \<open>SimpleController\<close> (lemma \<open>pool_differs_on_failure\<close>), and the committer
    saves in arrival order where \<open>save_in_order\<close> saves parents first.
  \<^item> Status (C21, C22, C24): \<open>date2iso\<close> loses nothing, since its output reads back as
    the timestamp through the inverse calendar \<open>timegm\<close>, for negative timestamps
    too (and agrees with CPython on sample values); every response of the view has
    status 200 and the documented shape (\<open>status_shape\<close>); the view fails exactly
    when a service other than a timed-out worker raises.

  \<^bold>\<open>Fuel.\<close>  \<open>save_in_order n\<close> runs \<open>sio_loop\<close> with \<open>n\<close> units of fuel, one per
  work-list element visited and one for the exit.  On a batch of distinct new
  articles every article enters the work list at most once (a saved article's
  children are new, unsaved and distinct), so \<open>Suc (length B)\<close> is enough
  (\<open>save_in_order_terminates\<close>).  No bound works in general: \<open>save_in_order_diverges\<close>
  exhibits an input for which every amount of fuel runs out, and the controller
  theorems take the fuel as a parameter \<open>n\<close>.

  \<^bold>\<open>Not modelled.\<close>  The threads of \<open>multithread\<close> beyond their interleaving (the
  pool is a step relation, not a scheduler); the deduplication script
  (only its requests are recorded); progress monitors, logging and usage statistics;
  the widgets and rendering of the upload form, the bound form's file reading and
  decoding (\<open>get_entries\<close>, \<open>get_uploaded_texts\<close>, \<open>decode\<close> are parameters); the
  transport of the status view (HTTP, AMQP, Elasticsearch and git access are the
  environment \<open>status_env\<close>) and the REST framework's own validation;
  \<open>ProjectResource\<close>, which only configures the generic \<open>AmCATResource\<close>, and the
  \<open>QueryViewSet\<close> of \<open>src/api/rest/viewsets/tests/test_query.py\<close>, whose code is
  not in the repository; the disabled upload test \<open>todo_test_zip_file\<close>, which
  expects a zip handling \<open>upload.py\<close> does not have.  The database is abstract: a
  constraint oracle decides which writes fail, and \<open>Medium\<close>, \<open>ArticleSet\<close> and
  \<open>Article.create_articles\<close> are explicit tables in the components' states.
\<close>

end
